theory Spec2Isabelle
  imports Complex_Main "HOL-Library.Sublist"
begin

section \<open>Data model\<close>

text \<open>
  The pipeline of \<^verbatim>\<open>src/pipeline.py\<close> walks an ElementTree, enriches every
  affiliation string and collects one dictionary per (article, author, affiliation).
  A text is a \<^typ>\<open>string\<close> whose characters are the code points below 256; on
  these the character classes below (whitespace, digits, word characters, the letter
  classes under the flag \<^verbatim>\<open>(?i)\<close>) are exactly Python's.
\<close>

datatype py_error = TypeError | IndexError | KeyError

text \<open>An \<^verbatim>\<open>xml.etree.ElementTree.Element\<close>: tag, attributes, text, children.\<close>

datatype element =
  Element (tag: string) (attrib: "(string \<times> string) list") (text_of: "string option")
    (children: "element list")

text \<open>A row is a Python dictionary from column name to a string or \<^verbatim>\<open>None\<close>.\<close>

type_synonym row = "string \<rightharpoonup> string option"

text \<open>A spaCy entity span: its \<^verbatim>\<open>label_\<close> and its \<^verbatim>\<open>text\<close>.\<close>

record ent =
  ent_label :: string
  ent_text :: string

text \<open>
  One row of the reference table \<^verbatim>\<open>institutes.csv\<close> as \<^verbatim>\<open>pd.read_csv\<close> loads
  it, for a table whose two columns hold strings (a name column of numbers only, or with
  empty cells, is loaded as numbers and is not such a table).
\<close>

record institute =
  name :: string
  grid_id :: string

subsection \<open>ElementTree queries\<close>

text \<open>
  \<^verbatim>\<open>Element.findall\<close> on a path \<^verbatim>\<open>./a/b/c\<close> of child steps (given as the list of
  tags): every step maps over the elements found so far, in document order.
\<close>

fun findall :: "element \<Rightarrow> string list \<Rightarrow> element list" where
  "findall e [] = [e]"
| "findall e (t # ts) = concat (map (\<lambda>c. findall c ts) (filter (\<lambda>c. tag c = t) (children e)))"

text \<open>
  \<^verbatim>\<open>Element.findtext\<close>: the text of the first element found, the empty string when
  that element has no text, \<^verbatim>\<open>None\<close> when nothing is found.
\<close>

definition findtext :: "element \<Rightarrow> string list \<Rightarrow> string option" where
  "findtext e path =
     (case findall e path of
        [] \<Rightarrow> None
      | c # _ \<Rightarrow> (case text_of c of None \<Rightarrow> Some [] | Some s \<Rightarrow> Some s))"

text \<open>\<^verbatim>\<open>Element.iter(tag)\<close>: the element itself and all its descendants, in pre-order.\<close>

fun iter_all :: "element \<Rightarrow> element list" where
  "iter_all (Element t a x cs) = Element t a x cs # concat (map iter_all cs)"

definition iter :: "element \<Rightarrow> string \<Rightarrow> element list" where
  "iter e t = filter (\<lambda>c. tag c = t) (iter_all e)"

subsection \<open>Python strings\<close>

text \<open>\<^verbatim>\<open>str(x)\<close> as an f-string renders it: \<^verbatim>\<open>None\<close> becomes the text "None".\<close>

definition py_str :: "string option \<Rightarrow> string" where
  "py_str v = (case v of None \<Rightarrow> ''None'' | Some s \<Rightarrow> s)"

text \<open>\<^verbatim>\<open>sep.join(xs)\<close>.\<close>

fun join :: "string \<Rightarrow> string list \<Rightarrow> string" where
  "join sep [] = []"
| "join sep [x] = x"
| "join sep (x # y # ys) = x @ sep @ join sep (y # ys)"

section \<open>Article and author fields\<close>

text \<open>
  \<^verbatim>\<open>descriptor_name.attrib["UI"]\<close> raises \<^verbatim>\<open>KeyError\<close> when the attribute is absent.
\<close>

fun mesh_identifiers :: "element list \<Rightarrow> py_error + string list" where
  "mesh_identifiers [] = Inr []"
| "mesh_identifiers (d # ds) =
     (case map_of (attrib d) ''UI'' of
        None \<Rightarrow> Inl KeyError
      | Some ui \<Rightarrow> (case mesh_identifiers ds of Inl e \<Rightarrow> Inl e | Inr uis \<Rightarrow> Inr (ui # uis)))"

definition insert_article_info :: "element \<Rightarrow> row \<Rightarrow> py_error + row" where
  "insert_article_info article target =
     (let t1 = target(''Article PMID'' \<mapsto> findtext article [''MedlineCitation'', ''PMID'']);
          t2 = t1(''Article title'' \<mapsto>
                 findtext article [''MedlineCitation'', ''Article'', ''ArticleTitle'']);
          keywords = findall article [''MedlineCitation'', ''KeywordList'', ''Keyword''];
          t3 = (if keywords \<noteq> []
                then t2(''Article keywords'' \<mapsto>
                       Some (join '', ''
                               (concat (map (\<lambda>keyword. case text_of keyword of
                                                          None \<Rightarrow> [] | Some s \<Rightarrow> [s])
                                            keywords))))
                else t2(''Article keywords'' \<mapsto> None));
          mesh_descriptor_names =
            findall article
              [''MedlineCitation'', ''MeshHeadingList'', ''MeshHeading'', ''DescriptorName'']
      in if mesh_descriptor_names \<noteq> []
         then (case mesh_identifiers mesh_descriptor_names of
                 Inl e \<Rightarrow> Inl e
               | Inr uis \<Rightarrow>
                   Inr (t3(''Article MESH Identifiers'' \<mapsto> Some (join '', '' uis),
                           ''Article year'' \<mapsto>
                             findtext article
                               [''MedlineCitation'', ''Article'', ''ArticleDate'', ''Year''])))
         else Inr (t3(''Article MESH Identifiers'' \<mapsto> None,
                      ''Article year'' \<mapsto>
                        findtext article
                          [''MedlineCitation'', ''Article'', ''ArticleDate'', ''Year''])))"

definition insert_author_info :: "element \<Rightarrow> row \<Rightarrow> row" where
  "insert_author_info author target =
     (let first_name = findtext author [''ForeName''];
          last_name = findtext author [''LastName'']
      in target(''Author first name'' \<mapsto> first_name,
                ''Author last name'' \<mapsto> last_name,
                ''Author initials'' \<mapsto> findtext author [''Initials''],
                ''Author full name'' \<mapsto> Some (py_str first_name @ '' '' @ py_str last_name)))"

section \<open>Country normaliser\<close>

text \<open>
  The loop of \<^verbatim>\<open>extract_affiliation_country\<close> over the entities it is handed; the caller
  hands it \<^verbatim>\<open>reversed(affiliation_items.ents)\<close>.
\<close>

fun country_loop :: "ent list \<Rightarrow> string set \<Rightarrow> string option" where
  "country_loop [] countries = None"
| "country_loop (e # es) countries =
     (if ent_label e = ''GPE'' then
        (if ent_text e \<in> {''UK'', ''U.K''} then Some ''United Kingdom''
         else if ent_text e \<in> {''USA'', ''U.S.A'', ''United States of America''}
              then Some ''United States''
         else if ent_text e \<in> countries then Some (ent_text e)
         else country_loop es countries)
      else country_loop es countries)"

definition extract_affiliation_country :: "ent list \<Rightarrow> string set \<Rightarrow> string option" where
  "extract_affiliation_country affiliation_items countries =
     country_loop (rev affiliation_items) countries"

text \<open>
  The normaliser as the specification words it: what one entity qualifies for (alias rules
  before membership in the canonical set), and the first qualifying entity in reverse
  document order.
\<close>

definition qualifying_country :: "string set \<Rightarrow> ent \<Rightarrow> string option" where
  "qualifying_country countries e =
     (if ent_label e \<noteq> ''GPE'' then None
      else if ent_text e = ''UK'' \<or> ent_text e = ''U.K'' then Some ''United Kingdom''
      else if ent_text e = ''USA'' \<or> ent_text e = ''U.S.A''
              \<or> ent_text e = ''United States of America'' then Some ''United States''
      else if ent_text e \<in> countries then Some (ent_text e)
      else None)"

definition normalizeCountry_spec :: "ent list \<Rightarrow> string set \<Rightarrow> string option" where
  "normalizeCountry_spec entities countries =
     (case filter (\<lambda>e. qualifying_country countries e \<noteq> None) (rev entities) of
        [] \<Rightarrow> None
      | e # _ \<Rightarrow> qualifying_country countries e)"

section \<open>Regular expressions\<close>

text \<open>
  The two patterns of the module are built from single-character classes, sequence,
  alternation, greedy optional parts, greedy repetition of a class and the word boundary.
  A class is the list of the characters it accepts.
\<close>

datatype rx =
  Eps
| Cls string
| Seq rx rx
| Alt rx rx
| Opt rx
| Rep string nat
| WordB

text \<open>
  The state of a match attempt: the character before the current position (for the word
  boundary) and the rest of the text.
\<close>

type_synonym mstate = "char option \<times> string"

definition letters :: string where
  "letters = ''ABCDEFGHIJKLMNOPQRSTUVWXYZabcdefghijklmnopqrstuvwxyz''"

definition digits :: string where
  "digits = ''0123456789''"

text \<open>
  The code points below 256 that \<^verbatim>\<open>str.isspace\<close> accepts; \<^verbatim>\<open>str.strip()\<close> and the
  class \<^verbatim>\<open>\s\<close> use the same ones.
\<close>

definition whitespace :: string where
  "whitespace = [CHR '' '', CHR 0x09, CHR 0x0A, CHR 0x0B, CHR 0x0C, CHR 0x0D,
                 CHR 0x1C, CHR 0x1D, CHR 0x1E, CHR 0x1F, CHR 0x85, CHR 0xA0]"

text \<open>
  The alphanumeric code points from 128 to 255 (letters, superscript digits and
  fractions); only the multiplication and the division sign are left out from 0xC0 on.
\<close>

definition latin1_alnum :: string where
  "latin1_alnum =
    [CHR 0xAA, CHR 0xB2, CHR 0xB3, CHR 0xB5, CHR 0xB9, CHR 0xBA, CHR 0xBC, CHR 0xBD,
      CHR 0xBE, CHR 0xC0, CHR 0xC1, CHR 0xC2, CHR 0xC3, CHR 0xC4, CHR 0xC5, CHR 0xC6,
      CHR 0xC7, CHR 0xC8, CHR 0xC9, CHR 0xCA, CHR 0xCB, CHR 0xCC, CHR 0xCD, CHR 0xCE,
      CHR 0xCF, CHR 0xD0, CHR 0xD1, CHR 0xD2, CHR 0xD3, CHR 0xD4, CHR 0xD5, CHR 0xD6,
      CHR 0xD8, CHR 0xD9, CHR 0xDA, CHR 0xDB, CHR 0xDC, CHR 0xDD, CHR 0xDE, CHR 0xDF,
      CHR 0xE0, CHR 0xE1, CHR 0xE2, CHR 0xE3, CHR 0xE4, CHR 0xE5, CHR 0xE6, CHR 0xE7,
      CHR 0xE8, CHR 0xE9, CHR 0xEA, CHR 0xEB, CHR 0xEC, CHR 0xED, CHR 0xEE, CHR 0xEF,
      CHR 0xF0, CHR 0xF1, CHR 0xF2, CHR 0xF3, CHR 0xF4, CHR 0xF5, CHR 0xF6, CHR 0xF8,
      CHR 0xF9, CHR 0xFA, CHR 0xFB, CHR 0xFC, CHR 0xFD, CHR 0xFE, CHR 0xFF]"

text \<open>The word characters of \<^verbatim>\<open>\b\<close> and \<^verbatim>\<open>\w\<close>: alphanumeric or underscore.\<close>

definition word_chars :: string where
  "word_chars = letters @ digits @ ''_'' @ latin1_alnum"

definition is_word :: "char option \<Rightarrow> bool" where
  "is_word c = (case c of None \<Rightarrow> False | Some x \<Rightarrow> x \<in> set word_chars)"

definition advance :: "nat \<Rightarrow> mstate \<Rightarrow> mstate" where
  "advance k st =
     (case rev (take k (snd st)) of
        [] \<Rightarrow> (fst st, drop k (snd st))
      | c # _ \<Rightarrow> (Some c, drop k (snd st)))"

text \<open>
  All the ways the expression matches at the current position, as the states after the
  match, in the order a backtracking matcher tries them: the first alternative before the
  second, the longer repetition before the shorter. The head of the list is the match
  \<^verbatim>\<open>re\<close> reports.
\<close>

primrec rx_match :: "rx \<Rightarrow> mstate \<Rightarrow> mstate list" where
  "rx_match Eps st = [st]"
| "rx_match (Cls cs) st =
     (case snd st of
        [] \<Rightarrow> []
      | c # rest \<Rightarrow> if c \<in> set cs then [(Some c, rest)] else [])"
| "rx_match (Seq a b) st = concat (map (rx_match b) (rx_match a st))"
| "rx_match (Alt a b) st = rx_match a st @ rx_match b st"
| "rx_match (Opt a) st = rx_match a st @ [st]"
| "rx_match (Rep cs m) st =
     map (\<lambda>k. advance k st) (rev [m ..< Suc (length (takeWhile (\<lambda>c. c \<in> set cs) (snd st)))])"
| "rx_match WordB st =
     (if is_word (fst st) \<noteq> is_word (case snd st of [] \<Rightarrow> None | c # _ \<Rightarrow> Some c)
      then [st] else [])"

text \<open>
  \<^verbatim>\<open>re.search\<close>: the leftmost position where the expression matches; the result is the
  position and the matched text (\<^verbatim>\<open>group(0)\<close>).
\<close>

fun search_from :: "rx \<Rightarrow> char option \<Rightarrow> string \<Rightarrow> (nat \<times> string) option" where
  "search_from r prev s =
     (case rx_match r (prev, s) of
        st # _ \<Rightarrow> Some (0, take (length s - length (snd st)) s)
      | [] \<Rightarrow>
          (case s of
             [] \<Rightarrow> None
           | c # cs \<Rightarrow>
               (case search_from r (Some c) cs of
                  None \<Rightarrow> None
                | Some (i, m) \<Rightarrow> Some (Suc i, m))))"

definition re_search :: "rx \<Rightarrow> string \<Rightarrow> (nat \<times> string) option" where
  "re_search r s = search_from r None s"

text \<open>
  \<^verbatim>\<open>re.findall\<close> for an expression without groups: the texts of the successive
  non-overlapping matches, left to right. The counter is the number of characters of the
  last match still to be skipped. After an empty match the search goes on at the same
  position for a match that is not empty, and only then moves on.
\<close>

fun findall_from :: "rx \<Rightarrow> nat \<Rightarrow> char option \<Rightarrow> string \<Rightarrow> string list" where
  "findall_from r (Suc k) prev [] = []"
| "findall_from r (Suc k) prev (c # cs) = findall_from r k (Some c) cs"
| "findall_from r 0 prev [] =
     (case rx_match r (prev, []) of [] \<Rightarrow> [] | st # _ \<Rightarrow> [[]])"
| "findall_from r 0 prev (c # cs) =
     (case rx_match r (prev, c # cs) of
        [] \<Rightarrow> findall_from r 0 (Some c) cs
      | st # sts \<Rightarrow>
          (if length (snd st) < Suc (length cs)
           then take (Suc (length cs) - length (snd st)) (c # cs)
                  # findall_from r (length cs - length (snd st)) (Some c) cs
           else [] # (case filter (\<lambda>st'. length (snd st') < Suc (length cs)) sts of
                        [] \<Rightarrow> findall_from r 0 (Some c) cs
                      | st' # _ \<Rightarrow>
                          take (Suc (length cs) - length (snd st')) (c # cs)
                            # findall_from r (length cs - length (snd st')) (Some c) cs)))"

definition re_findall :: "rx \<Rightarrow> string \<Rightarrow> string list" where
  "re_findall r s = findall_from r 0 None s"

fun seqs :: "rx list \<Rightarrow> rx" where
  "seqs [] = Eps"
| "seqs [r] = r"
| "seqs (r # rs) = Seq r (seqs rs)"

text \<open>\<^verbatim>\<open>[A-Za-z0-9._%+-]+@[A-Za-z0-9.-]+\.[A-Za-z]{2,}\<close>\<close>

definition EMAIL_PATTERN :: rx where
  "EMAIL_PATTERN =
     seqs [Rep (letters @ digits @ ''._%+-'') 1, Cls ''@'', Rep (letters @ digits @ ''.-'') 1,
           Cls ''.'', Rep letters 2]"

text \<open>
  \<^verbatim>\<open>(?i)([A-Z][A-HJ-Y]?\d[A-Z\d]? ?\d[A-Z]{2}|GIR\s*0AA)|\b\d{5}(-\d{4})?\b|\<close>
  \<^verbatim>\<open>([ABCEGHJKLMNPRSTVXY]\d[ABCEGHJKLMNPRSTVWXYZ])\ ?(\d[ABCEGHJKLMNPRSTVWXYZ]\d)|\d{6}\<close>:
  the flag \<^verbatim>\<open>(?i)\<close> makes every letter class accept both cases.
\<close>

definition ZIPCODE_PATTERN :: rx where
  "ZIPCODE_PATTERN =
     (let d = Cls digits;
          canada1 = Cls ''ABCEGHJKLMNPRSTVXYabceghjklmnprstvxy'';
          canada2 = Cls ''ABCEGHJKLMNPRSTVWXYZabceghjklmnprstvwxyz''
      in Alt (Alt (seqs [Cls letters, Opt (Cls ''ABCDEFGHJKLMNOPQRSTUVWXYabcdefghjklmnopqrstuvwxy''),
                         d, Opt (Cls (letters @ digits)), Opt (Cls '' ''), d,
                         Cls letters, Cls letters])
                  (seqs [Cls ''Gg'', Cls ''Ii'', Cls ''Rr'', Rep whitespace 0,
                         Cls ''0'', Cls ''Aa'', Cls ''Aa'']))
        (Alt (seqs [WordB, d, d, d, d, d, Opt (seqs [Cls ''-'', d, d, d, d]), WordB])
        (Alt (seqs [canada1, d, canada2, Opt (Cls '' ''), d, canada2, d])
             (seqs [d, d, d, d, d, d]))))"

section \<open>String operations\<close>

text \<open>
  \<^verbatim>\<open>str.replace(old, new)\<close>: the occurrences of \<^verbatim>\<open>old\<close> are found left to right
  without overlap; an empty \<^verbatim>\<open>old\<close> matches before every character and at the end.
\<close>

fun replace_scan :: "string \<Rightarrow> string \<Rightarrow> nat \<Rightarrow> string \<Rightarrow> string" where
  "replace_scan old new (Suc k) [] = []"
| "replace_scan old new (Suc k) (c # cs) = replace_scan old new k cs"
| "replace_scan old new 0 [] = []"
| "replace_scan old new 0 (c # cs) =
     (if prefix old (c # cs) then new @ replace_scan old new (length old - 1) cs
      else c # replace_scan old new 0 cs)"

definition replace :: "string \<Rightarrow> string \<Rightarrow> string \<Rightarrow> string" where
  "replace s old new =
     (if old = [] then new @ concat (map (\<lambda>c. c # new) s) else replace_scan old new 0 s)"

text \<open>\<^verbatim>\<open>str.replace(old, new, 1)\<close>: only the first occurrence.\<close>

fun replace_first :: "string \<Rightarrow> string \<Rightarrow> string \<Rightarrow> string" where
  "replace_first [] old new = (if old = [] then new else [])"
| "replace_first (c # cs) old new =
     (if prefix old (c # cs) then new @ drop (length old) (c # cs)
      else c # replace_first cs old new)"

text \<open>\<^verbatim>\<open>str.strip()\<close>: whitespace is removed at both ends.\<close>

definition strip :: "string \<Rightarrow> string" where
  "strip s =
     rev (dropWhile (\<lambda>c. c \<in> set whitespace) (rev (dropWhile (\<lambda>c. c \<in> set whitespace) s)))"

section \<open>Pattern extractors\<close>

definition extract_and_remove_zipcode :: "string \<Rightarrow> rx \<Rightarrow> string option \<times> string" where
  "extract_and_remove_zipcode affiliation_text zipcode_regex =
     (case re_search zipcode_regex affiliation_text of
        None \<Rightarrow> (None, affiliation_text)
      | Some (i, zipcode) \<Rightarrow> (Some zipcode, strip (replace_first affiliation_text zipcode [])))"

text \<open>The body of the loop over the found emails, and the loop.\<close>

definition remove_email :: "string \<Rightarrow> string \<Rightarrow> string" where
  "remove_email affiliation_text email =
     replace (replace affiliation_text (''Electronic address: '' @ email @ ''.'') ''.'') email []"

fun remove_emails :: "string list \<Rightarrow> string \<Rightarrow> string" where
  "remove_emails [] affiliation_text = affiliation_text"
| "remove_emails (email # emails) affiliation_text =
     remove_emails emails (remove_email affiliation_text email)"

definition extract_and_remove_email :: "string \<Rightarrow> rx \<Rightarrow> string option \<times> string" where
  "extract_and_remove_email affiliation_text email_regex =
     (case re_findall email_regex affiliation_text of
        [] \<Rightarrow> (None, affiliation_text)
      | first # others \<Rightarrow> (Some first, strip (remove_emails (first # others) affiliation_text)))"

section \<open>Institution matcher\<close>

text \<open>The run-scoped cache: organisation mention to canonical institution name.\<close>

type_synonym cache = "string \<rightharpoonup> string"

text \<open>What \<^verbatim>\<open>process.extractOne\<close> returns: the choice, its score and its index.\<close>

type_synonym match = "string \<times> real \<times> nat"

text \<open>
  Modelled from the spec: \<^verbatim>\<open>rapidfuzz.process.extractOne\<close> is a library call whose
  code is not part of the repository. Section 4.4 has it score the candidate against every
  reference name, keep the best-scoring name and accept it only at the minimum score
  \<^verbatim>\<open>score_cutoff\<close>; the first of equally good names is kept. The scorer
  (\<^verbatim>\<open>fuzz.ratio\<close>) is a parameter.
\<close>

fun extractOne_loop ::
  "(string \<Rightarrow> string \<Rightarrow> real) \<Rightarrow> string \<Rightarrow> real \<Rightarrow> match option \<Rightarrow> nat \<Rightarrow> string list
     \<Rightarrow> match option" where
  "extractOne_loop scorer query score_cutoff result i [] = result"
| "extractOne_loop scorer query score_cutoff result i (choice # choices) =
     (if score_cutoff \<le> scorer query choice
         \<and> (case result of None \<Rightarrow> True | Some (c, s, j) \<Rightarrow> s < scorer query choice)
      then extractOne_loop scorer query score_cutoff
             (Some (choice, scorer query choice, i)) (Suc i) choices
      else extractOne_loop scorer query score_cutoff result (Suc i) choices)"

definition extractOne ::
  "(string \<Rightarrow> string \<Rightarrow> real) \<Rightarrow> string \<Rightarrow> string list \<Rightarrow> real \<Rightarrow> match option" where
  "extractOne scorer query choices score_cutoff =
     extractOne_loop scorer query score_cutoff None 0 choices"

text \<open>
  The first loop of \<^verbatim>\<open>extract_and_match_affiliation_name\<close>: the first candidate that
  is a key of the cache, with its cached value.
\<close>

fun cache_hit :: "string list \<Rightarrow> cache \<Rightarrow> (string \<times> string) option" where
  "cache_hit [] affiliation_cache = None"
| "cache_hit (org # orgs) affiliation_cache =
     (case affiliation_cache org of
        Some v \<Rightarrow> Some (v, org)
      | None \<Rightarrow> cache_hit orgs affiliation_cache)"

text \<open>
  The variables of the second loop, and the queries handed to \<^verbatim>\<open>process.extractOne\<close>
  so far (the similarity computations of the call).
\<close>

record best =
  best_match :: "match option"
  best_org :: "string option"
  best_score :: real
  scored :: "string list"

text \<open>
  The second loop. A cached value would be a string: an empty one is falsy, and on any
  other \<^verbatim>\<open>match[1] > best_score\<close> raises (\<^verbatim>\<open>IndexError\<close> on a single character,
  \<^verbatim>\<open>TypeError\<close> on comparing a character with a number).
\<close>

fun score_loop ::
  "(string \<Rightarrow> string \<Rightarrow> real) \<Rightarrow> string list \<Rightarrow> cache \<Rightarrow> string list \<Rightarrow> best
     \<Rightarrow> py_error + best" where
  "score_loop scorer affiliation_names affiliation_cache [] b = Inr b"
| "score_loop scorer affiliation_names affiliation_cache (org # orgs) b =
     (case affiliation_cache org of
        Some m \<Rightarrow>
          (if m = [] then score_loop scorer affiliation_names affiliation_cache orgs b
           else if length m < 2 then Inl IndexError
           else Inl TypeError)
      | None \<Rightarrow>
          (case extractOne scorer org affiliation_names 90 of
             None \<Rightarrow>
               score_loop scorer affiliation_names affiliation_cache orgs
                 (b\<lparr>scored := scored b @ [org]\<rparr>)
           | Some (choice, score, i) \<Rightarrow>
               (if best_score b < score
                then score_loop scorer affiliation_names affiliation_cache orgs
                       (b\<lparr>best_match := Some (choice, score, i), best_score := score,
                          best_org := Some org, scored := scored b @ [org]\<rparr>)
                else score_loop scorer affiliation_names affiliation_cache orgs
                       (b\<lparr>scored := scored b @ [org]\<rparr>))))"

text \<open>
  The result of one call: the returned pair, the cache as the call leaves it, and the
  queries it handed to \<^verbatim>\<open>process.extractOne\<close>.
\<close>

record matched =
  returned :: "string option \<times> string option"
  cache_after :: cache
  calls :: "string list"

definition found_orgs_of :: "ent list \<Rightarrow> string list" where
  "found_orgs_of affiliation_items =
     map ent_text (filter (\<lambda>e. ent_label e = ''ORG'') (rev affiliation_items))"

text \<open>
  \<^verbatim>\<open>best_org\<close> is assigned together with \<^verbatim>\<open>best_match\<close>, so the store under the key
  \<^verbatim>\<open>best_org\<close> always has a string key; the branch without one is never taken.
\<close>

definition extract_and_match_affiliation_name ::
  "(string \<Rightarrow> string \<Rightarrow> real) \<Rightarrow> ent list \<Rightarrow> string list \<Rightarrow> cache \<Rightarrow> py_error + matched" where
  "extract_and_match_affiliation_name scorer affiliation_items affiliation_names
     affiliation_cache =
     (case found_orgs_of affiliation_items of
        [] \<Rightarrow> Inr \<lparr>returned = (None, None), cache_after = affiliation_cache, calls = []\<rparr>
      | first_org # orgs \<Rightarrow>
          (case cache_hit (first_org # orgs) affiliation_cache of
             Some (v, org) \<Rightarrow>
               Inr \<lparr>returned = (Some v, Some org), cache_after = affiliation_cache, calls = []\<rparr>
           | None \<Rightarrow>
               (case score_loop scorer affiliation_names affiliation_cache (first_org # orgs)
                       \<lparr>best_match = None, best_org = None, best_score = 0, scored = []\<rparr> of
                  Inl e \<Rightarrow> Inl e
                | Inr b \<Rightarrow>
                    (case best_match b of
                       None \<Rightarrow>
                         Inr \<lparr>returned = (None, Some first_org),
                              cache_after = affiliation_cache, calls = scored b\<rparr>
                     | Some (choice, score, i) \<Rightarrow>
                         (case best_org b of
                            Some org \<Rightarrow>
                              Inr \<lparr>returned = (Some choice, Some org),
                                   cache_after = affiliation_cache(org \<mapsto> choice),
                                   calls = scored b\<rparr>
                          | None \<Rightarrow>
                              Inr \<lparr>returned = (Some choice, None),
                                   cache_after = affiliation_cache, calls = scored b\<rparr>)))))"

section \<open>Identifier resolver\<close>

text \<open>
  \<^verbatim>\<open>not grid_affiliation_name\<close> holds for \<^verbatim>\<open>None\<close> and for the empty string;
  \<^verbatim>\<open>.iloc[0]\<close> on an empty selection raises \<^verbatim>\<open>IndexError\<close>.
\<close>

definition get_grid_identifier :: "string option \<Rightarrow> institute list \<Rightarrow> py_error + string option" where
  "get_grid_identifier grid_affiliation_name institute_data =
     (case grid_affiliation_name of
        None \<Rightarrow> Inr None
      | Some n \<Rightarrow>
          (if n = [] then Inr None
           else (case filter (\<lambda>r. name r = n) institute_data of
                   [] \<Rightarrow> Inl IndexError
                 | matched_row # _ \<Rightarrow> Inr (Some (grid_id matched_row)))))"

section \<open>Affiliation enricher and record flattener\<close>

text \<open>
  The module-level collaborators: the entity tagger \<^verbatim>\<open>nlp\<close> (its \<^verbatim>\<open>ents\<close>), the
  scorer \<^verbatim>\<open>fuzz.ratio\<close> and the set \<^verbatim>\<open>COUNTRY_NAMES\<close>.
\<close>

record globals =
  nlp :: "string \<Rightarrow> ent list"
  fuzz_ratio :: "string \<Rightarrow> string \<Rightarrow> real"
  COUNTRY_NAMES :: "string set"

text \<open>
  \<^verbatim>\<open>re.findall\<close> raises \<^verbatim>\<open>TypeError\<close> on an affiliation element without text
  (\<^verbatim>\<open>affiliation.text\<close> is \<^verbatim>\<open>None\<close>). Nothing in the function catches an error.
\<close>

definition extract_and_insert_affiliation_info ::
  "globals \<Rightarrow> element \<Rightarrow> row \<Rightarrow> institute list \<Rightarrow> cache \<Rightarrow> py_error + row \<times> cache" where
  "extract_and_insert_affiliation_info g affiliation target institution_data affiliation_cache =
     (case text_of affiliation of
        None \<Rightarrow> Inl TypeError
      | Some affiliation_text \<Rightarrow>
          (let (email, text1) = extract_and_remove_email affiliation_text EMAIL_PATTERN;
               t1 = target(''Author email'' \<mapsto> email);
               (zipcode, text2) = extract_and_remove_zipcode text1 ZIPCODE_PATTERN;
               t2 = t1(''Affiliation zipcode'' \<mapsto> zipcode);
               doc = nlp g text2;
               institution_names = map name institution_data
           in (case extract_and_match_affiliation_name (fuzz_ratio g) doc institution_names
                      affiliation_cache of
                 Inl e \<Rightarrow> Inl e
               | Inr m \<Rightarrow>
                   (let t3 = t2(''Affiliation name (from PubMed dataset)'' \<mapsto> snd (returned m),
                                ''Affiliation name (from GRID dataset)'' \<mapsto> fst (returned m))
                    in (case get_grid_identifier (fst (returned m)) institution_data of
                          Inl e \<Rightarrow> Inl e
                        | Inr ident \<Rightarrow>
                            Inr (t3(''Affiliation GRID identifier'' \<mapsto> ident,
                                    ''Affiliation country'' \<mapsto>
                                      extract_affiliation_country doc (COUNTRY_NAMES g)),
                                 cache_after m))))))"

text \<open>
  The three nested loops of \<^verbatim>\<open>process_xml_and_generate_csv\<close>, innermost first. Each
  threads the cache and the list \<^verbatim>\<open>data\<close>; an error leaves the loops at once.
\<close>

fun affiliation_loop ::
  "globals \<Rightarrow> element list \<Rightarrow> row \<Rightarrow> institute list \<Rightarrow> cache \<Rightarrow> row list
     \<Rightarrow> py_error + cache \<times> row list" where
  "affiliation_loop g [] article_and_author_data institute_data c data = Inr (c, data)"
| "affiliation_loop g (affiliation # affiliations) article_and_author_data institute_data c data =
     (case extract_and_insert_affiliation_info g affiliation article_and_author_data
             institute_data c of
        Inl e \<Rightarrow> Inl e
      | Inr (complete_data, c') \<Rightarrow>
          affiliation_loop g affiliations article_and_author_data institute_data c'
            (data @ [complete_data]))"

fun author_loop ::
  "globals \<Rightarrow> element list \<Rightarrow> row \<Rightarrow> institute list \<Rightarrow> cache \<Rightarrow> row list
     \<Rightarrow> py_error + cache \<times> row list" where
  "author_loop g [] article_data institute_data c data = Inr (c, data)"
| "author_loop g (author # authors) article_data institute_data c data =
     (if findtext author [''CollectiveName''] \<noteq> None
      then author_loop g authors article_data institute_data c data
      else (case affiliation_loop g (findall author [''AffiliationInfo'', ''Affiliation''])
                   (insert_author_info author article_data) institute_data c data of
              Inl e \<Rightarrow> Inl e
            | Inr (c', data') \<Rightarrow> author_loop g authors article_data institute_data c' data'))"

fun article_loop ::
  "globals \<Rightarrow> element list \<Rightarrow> institute list \<Rightarrow> cache \<Rightarrow> row list
     \<Rightarrow> py_error + cache \<times> row list" where
  "article_loop g [] institute_data c data = Inr (c, data)"
| "article_loop g (article # articles) institute_data c data =
     (case insert_article_info article Map.empty of
        Inl e \<Rightarrow> Inl e
      | Inr article_data \<Rightarrow>
          (case author_loop g
                  (findall article [''MedlineCitation'', ''Article'', ''AuthorList'', ''Author''])
                  article_data institute_data c data of
             Inl e \<Rightarrow> Inl e
           | Inr (c', data') \<Rightarrow> article_loop g articles institute_data c' data'))"

text \<open>
  \<^verbatim>\<open>process_xml_and_generate_csv\<close> on the parsed tree and the loaded reference table:
  the rows of the table it writes, or the error that ends the run.
\<close>

definition process_xml_and_generate_csv ::
  "globals \<Rightarrow> element \<Rightarrow> institute list \<Rightarrow> py_error + row list" where
  "process_xml_and_generate_csv g tree_root institute_data =
     (case article_loop g (iter tree_root ''PubmedArticle'') institute_data Map.empty [] of
        Inl e \<Rightarrow> Inl e
      | Inr (c, data) \<Rightarrow> Inr data)"

text \<open>
  The authors the flattener visits, and the number of rows the specification promises:
  the affiliation counts of the authors that are not collectives.
\<close>

definition authors_of :: "element \<Rightarrow> element list" where
  "authors_of tree_root =
     concat (map (\<lambda>article. findall article
                               [''MedlineCitation'', ''Article'', ''AuthorList'', ''Author''])
                 (iter tree_root ''PubmedArticle''))"

definition is_collective :: "element \<Rightarrow> bool" where
  "is_collective author = (findtext author [''CollectiveName''] \<noteq> None)"

definition affiliations_of :: "element \<Rightarrow> element list" where
  "affiliations_of author = findall author [''AffiliationInfo'', ''Affiliation'']"

definition expected_row_count :: "element \<Rightarrow> nat" where
  "expected_row_count tree_root =
     sum_list (map (\<lambda>author. length (affiliations_of author))
                   (filter (\<lambda>author. \<not> is_collective author) (authors_of tree_root)))"

section \<open>Example collaborators\<close>

text \<open>
  A tagger, a scorer and a country set for running the pipeline on concrete inputs: the
  tagger reports the whole text as one organisation, the scorer gives 100 to equal strings
  and 0 to all others.
\<close>

definition whole_text_org :: "string \<Rightarrow> ent list" where
  "whole_text_org t = [\<lparr>ent_label = ''ORG'', ent_text = t\<rparr>]"

definition exact_ratio :: "string \<Rightarrow> string \<Rightarrow> real" where
  "exact_ratio query choice = (if query = choice then 100 else 0)"

definition example_globals :: globals where
  "example_globals =
     \<lparr>nlp = whole_text_org, fuzz_ratio = exact_ratio, COUNTRY_NAMES = {''France''}\<rparr>"

definition leaf :: "string \<Rightarrow> string option \<Rightarrow> element" where
  "leaf t x = Element t [] x []"

definition node :: "string \<Rightarrow> element list \<Rightarrow> element" where
  "node t cs = Element t [] None cs"

text \<open>An author element with the given children, inside one article of a citation set.\<close>

definition one_author_tree :: "element list \<Rightarrow> element" where
  "one_author_tree author_children =
     node ''PubmedArticleSet''
       [node ''PubmedArticle''
          [node ''MedlineCitation''
             [node ''Article''
                [node ''AuthorList'' [node ''Author'' author_children]]]]]"

definition affiliation_info :: "string option \<Rightarrow> element" where
  "affiliation_info x = node ''AffiliationInfo'' [leaf ''Affiliation'' x]"

definition example_institutes :: "institute list" where
  "example_institutes = [\<lparr>name = ''MIT'', grid_id = ''grid.1''\<rparr>]"

text \<open>One author with two affiliations, and one whose second affiliation has no text.\<close>

definition example_tree :: element where
  "example_tree =
     one_author_tree [affiliation_info (Some ''MIT''),
                      affiliation_info (Some ''CERN 75001 x@y.org'')]"

definition textless_tree :: element where
  "textless_tree = one_author_tree [affiliation_info (Some ''MIT''), affiliation_info None]"

text \<open>
  The invariant of the run-scoped cache: every key is one of the organisation mentions seen
  so far, and every value is a reference name that scores at least 90 against its key.
\<close>

definition cache_ok ::
  "(string \<Rightarrow> string \<Rightarrow> real) \<Rightarrow> string list \<Rightarrow> string set \<Rightarrow> cache \<Rightarrow> bool" where
  "cache_ok scorer affiliation_names seen c =
     (\<forall>k v. c k = Some v \<longrightarrow> k \<in> seen \<and> v \<in> set affiliation_names \<and> 90 \<le> scorer k v)"

text \<open>
  The trees on which no step of the run raises, the reference table being one of strings:
  every \<^verbatim>\<open>DescriptorName\<close> the flattener reads has the attribute \<^verbatim>\<open>UI\<close>, and
  every affiliation of an author that is not a collective has text.
\<close>

definition well_formed :: "element \<Rightarrow> bool" where
  "well_formed tree_root =
     ((\<forall>article \<in> set (iter tree_root ''PubmedArticle'').
         \<forall>d \<in> set (findall article
                       [''MedlineCitation'', ''MeshHeadingList'', ''MeshHeading'',
                        ''DescriptorName'']).
           map_of (attrib d) ''UI'' \<noteq> None)
      \<and> (\<forall>author \<in> set (authors_of tree_root). \<not> is_collective author \<longrightarrow>
            (\<forall>a \<in> set (affiliations_of author). text_of a \<noteq> None)))"

section \<open>Properties\<close>

lemma country_loop_spec:
  "country_loop es countries =
     (case filter (\<lambda>e. qualifying_country countries e \<noteq> None) es of
        [] \<Rightarrow> None
      | e # _ \<Rightarrow> qualifying_country countries e)"
  by (induction es) (auto simp: qualifying_country_def)

subsection \<open>Author fields\<close>

text \<open>
  C10. \<^verbatim>\<open>insert_author_info\<close> stores as full name exactly the first name, one space
  and the last name, each rendered as an f-string renders it: a missing \<^verbatim>\<open>ForeName\<close> or
  \<^verbatim>\<open>LastName\<close> child gives \<^verbatim>\<open>None\<close>, which appears as the literal text "None"
  in the full name ("None Smith", "None None"); the field is never left out or empty.
\<close>

theorem insert_author_info_full_name:
  "insert_author_info author target ''Author full name'' =
     Some (Some (py_str (findtext author [''ForeName'']) @ '' ''
                   @ py_str (findtext author [''LastName''])))
   \<and> insert_author_info author target ''Author first name'' = Some (findtext author [''ForeName''])
   \<and> insert_author_info author target ''Author last name'' = Some (findtext author [''LastName''])
   \<and> ((\<forall>c \<in> set (children author). tag c \<noteq> ''ForeName'') \<longrightarrow>
        insert_author_info author target ''Author full name'' =
          Some (Some (''None '' @ py_str (findtext author [''LastName'']))))
   \<and> ((\<forall>c \<in> set (children author). tag c \<noteq> ''LastName'') \<longrightarrow>
        insert_author_info author target ''Author full name'' =
          Some (Some (py_str (findtext author [''ForeName'']) @ '' None'')))
   \<and> ((\<forall>c \<in> set (children author). tag c \<noteq> ''ForeName'' \<and> tag c \<noteq> ''LastName'') \<longrightarrow>
        insert_author_info author target ''Author full name'' = Some (Some ''None None''))"
proof -
  have absent: "findtext author [t] = None" if "\<forall>c \<in> set (children author). tag c \<noteq> t" for t
  proof -
    from that have "filter (\<lambda>c. tag c = t) (children author) = []"
      by (simp add: filter_empty_conv)
    then show ?thesis by (simp add: findtext_def)
  qed
  have full: "insert_author_info author target ''Author full name'' =
     Some (Some (py_str (findtext author [''ForeName'']) @ '' ''
                   @ py_str (findtext author [''LastName''])))"
    by (simp add: insert_author_info_def Let_def)
  have first: "insert_author_info author target ''Author first name''
                 = Some (findtext author [''ForeName''])"
    by (simp add: insert_author_info_def Let_def)
  have last: "insert_author_info author target ''Author last name''
                = Some (findtext author [''LastName''])"
    by (simp add: insert_author_info_def Let_def)
  show ?thesis
    using full first last absent [of "''ForeName''"] absent [of "''LastName''"]
    by (auto simp: py_str_def)
qed

theorem insert_author_info_full_name_witness:
  "insert_author_info (node ''Author'' [leaf ''LastName'' (Some ''Smith'')]) Map.empty
     ''Author full name'' = Some (Some ''None Smith'')
   \<and> insert_author_info (node ''Author'' [leaf ''Initials'' (Some ''J'')]) Map.empty
     ''Author full name'' = Some (Some ''None None'')"
  using insert_author_info_full_name
          [of "node ''Author'' [leaf ''LastName'' (Some ''Smith'')]" Map.empty]
    insert_author_info_full_name
          [of "node ''Author'' [leaf ''Initials'' (Some ''J'')]" Map.empty]
  by (simp add: node_def leaf_def findtext_def py_str_def)

subsection \<open>Country normaliser\<close>

text \<open>
  C8. \<^verbatim>\<open>extract_affiliation_country\<close> computes what the specification words: going
  through the entities in reverse document order, it returns the result of the first one
  that qualifies, where only geopolitical entities qualify, the alias rules are tried
  before membership in the canonical set, and nothing qualifying gives \<^verbatim>\<open>None\<close>. "UK"
  gives "United Kingdom" and "U.S.A" gives "United States" whatever the canonical set is;
  "France" gives "France" when it is a canonical name and "Atlantis" gives \<^verbatim>\<open>None\<close>
  when it is not.
\<close>

theorem country_normalizer:
  "extract_affiliation_country entities countries = normalizeCountry_spec entities countries
   \<and> extract_affiliation_country [\<lparr>ent_label = ''GPE'', ent_text = ''UK''\<rparr>] countries
       = Some ''United Kingdom''
   \<and> extract_affiliation_country [\<lparr>ent_label = ''GPE'', ent_text = ''U.S.A''\<rparr>] countries
       = Some ''United States''
   \<and> (''France'' \<in> countries \<longrightarrow>
        extract_affiliation_country [\<lparr>ent_label = ''GPE'', ent_text = ''France''\<rparr>] countries
          = Some ''France'')
   \<and> (''Atlantis'' \<notin> countries \<longrightarrow>
        extract_affiliation_country [\<lparr>ent_label = ''GPE'', ent_text = ''Atlantis''\<rparr>] countries
          = None)"
proof -
  have refines: "extract_affiliation_country entities countries
                   = normalizeCountry_spec entities countries"
    by (simp add: extract_affiliation_country_def normalizeCountry_spec_def country_loop_spec)
  show ?thesis
    using refines by (simp add: extract_affiliation_country_def)
qed

theorem country_normalizer_witness:
  "extract_affiliation_country
     [\<lparr>ent_label = ''GPE'', ent_text = ''France''\<rparr>, \<lparr>ent_label = ''ORG'', ent_text = ''UK''\<rparr>,
      \<lparr>ent_label = ''GPE'', ent_text = ''Atlantis''\<rparr>] {''France'', ''UK''} = Some ''France''
   \<and> extract_affiliation_country [\<lparr>ent_label = ''GPE'', ent_text = ''France''\<rparr>]
        {''France'', ''UK''} = Some ''France''
   \<and> extract_affiliation_country [\<lparr>ent_label = ''GPE'', ent_text = ''Atlantis''\<rparr>]
        {''France'', ''UK''} = None"
  using country_normalizer
          [of "[\<lparr>ent_label = ''GPE'', ent_text = ''France''\<rparr>,
                \<lparr>ent_label = ''ORG'', ent_text = ''UK''\<rparr>,
                \<lparr>ent_label = ''GPE'', ent_text = ''Atlantis''\<rparr>]" "{''France'', ''UK''}"]
  by (simp add: normalizeCountry_spec_def qualifying_country_def)

subsection \<open>Identifier resolver\<close>

text \<open>
  C3, as the code has it. \<^verbatim>\<open>get_grid_identifier\<close> returns \<^verbatim>\<open>None\<close> for the name
  \<^verbatim>\<open>None\<close> (and for the empty name); for any other name it returns the identifier of
  the first reference row with that name, which is the only one when names are unique;
  when no row has the name, the positional read raises the generic \<^verbatim>\<open>IndexError\<close>.
\<close>

theorem get_grid_identifier_cases:
  "get_grid_identifier None institute_data = Inr None
   \<and> get_grid_identifier (Some []) institute_data = Inr None
   \<and> (n \<noteq> [] \<longrightarrow>
        (filter (\<lambda>r. name r = n) institute_data = [] \<longrightarrow>
           get_grid_identifier (Some n) institute_data = Inl IndexError)
        \<and> (\<forall>r rs. filter (\<lambda>r. name r = n) institute_data = r # rs \<longrightarrow>
             get_grid_identifier (Some n) institute_data = Inr (Some (grid_id r))))"
  by (simp add: get_grid_identifier_def)

theorem get_grid_identifier_cases_witness:
  "get_grid_identifier (Some ''MIT'') example_institutes = Inr (Some ''grid.1'')
   \<and> get_grid_identifier (Some ''CERN'') example_institutes = Inl IndexError"
  using get_grid_identifier_cases [of example_institutes "''MIT''"]
    get_grid_identifier_cases [of example_institutes "''CERN''"]
  by (simp add: example_institutes_def)

text \<open>
  C3 as the specification states it fails: with two rows of the same name there is no
  error, the identifier of the first row is returned.
\<close>

theorem duplicate_rows_counterexample:
  "get_grid_identifier (Some ''MIT'')
     [\<lparr>name = ''MIT'', grid_id = ''grid.1''\<rparr>, \<lparr>name = ''MIT'', grid_id = ''grid.2''\<rparr>]
     = Inr (Some ''grid.1'')"
  by (simp add: get_grid_identifier_def)

subsection \<open>Pattern extractors\<close>

text \<open>
  \<^verbatim>\<open>re.findall\<close> finds something exactly when \<^verbatim>\<open>re.search\<close> does, and its first
  element is the text \<^verbatim>\<open>re.search\<close> matches: the match at the leftmost position of
  the text where the expression matches at all.
\<close>

lemma findall_from_search:
  "findall_from r 0 prev s =
     (case search_from r prev s of None \<Rightarrow> [] | Some (i, m) \<Rightarrow> m # tl (findall_from r 0 prev s))"
proof (induction s arbitrary: prev)
  case Nil
  show ?case by (cases "rx_match r (prev, [])") simp_all
next
  case (Cons c cs)
  show ?case
  proof (cases "rx_match r (prev, c # cs)")
    case Nil
    with Cons [of "Some c"] show ?thesis
      by (cases "search_from r (Some c) cs") auto
  next
    case (Cons st sts)
    then show ?thesis by auto
  qed
qed

lemma re_findall_empty: "re_findall r s = [] \<longleftrightarrow> re_search r s = None"
  unfolding re_findall_def re_search_def
  by (subst findall_from_search) (auto split: option.splits)

lemma re_findall_first:
  "re_findall r s = first # others \<Longrightarrow> \<exists>i. re_search r s = Some (i, first)"
  unfolding re_findall_def re_search_def
  by (subst (asm) findall_from_search) (auto split: option.splits)

lemma search_from_leftmost:
  "search_from r prev s = Some (i, m)
     \<Longrightarrow> i \<le> length s
         \<and> (\<exists>st sts. rx_match r (if i = 0 then prev else Some (s ! (i - 1)), drop i s) = st # sts
                \<and> m = take (length s - i - length (snd st)) (drop i s))
         \<and> (\<forall>j < i. rx_match r (if j = 0 then prev else Some (s ! (j - 1)), drop j s) = [])"
proof (induction s arbitrary: prev i)
  case Nil
  then show ?case by (cases "rx_match r (prev, [])") simp_all
next
  case (Cons c cs)
  show ?case
  proof (cases "rx_match r (prev, c # cs)")
    case (Cons st sts)
    with Cons.prems show ?thesis by auto
  next
    case Nil
    with Cons.prems obtain k where k: "search_from r (Some c) cs = Some (k, m)" and i: "i = Suc k"
      by (auto split: option.splits)
    from Cons.IH [OF k] have le: "k \<le> length cs"
      and hit: "\<exists>st sts. rx_match r (if k = 0 then Some c else Some (cs ! (k - 1)), drop k cs) = st # sts
                \<and> m = take (length cs - k - length (snd st)) (drop k cs)"
      and before: "\<forall>j < k. rx_match r (if j = 0 then Some c else Some (cs ! (j - 1)), drop j cs) = []"
      by blast+
    have prev_eq: "(if Suc j = 0 then prev else Some ((c # cs) ! (Suc j - 1)))
                     = (if j = 0 then Some c else Some (cs ! (j - 1)))" for j
      by (cases j) simp_all
    have "\<forall>j < Suc k. rx_match r (if j = 0 then prev else Some ((c # cs) ! (j - 1)), drop j (c # cs)) = []"
    proof (intro allI impI)
      fix j assume "j < Suc k"
      show "rx_match r (if j = 0 then prev else Some ((c # cs) ! (j - 1)), drop j (c # cs)) = []"
      proof (cases j)
        case 0
        with Nil show ?thesis by simp
      next
        case (Suc j')
        with \<open>j < Suc k\<close> before have "rx_match r (if j' = 0 then Some c else Some (cs ! (j' - 1)), drop j' cs) = []"
          by simp
        with Suc prev_eq [of j'] show ?thesis by simp
      qed
    qed
    with le hit i prev_eq [of k] show ?thesis by simp
  qed
qed

lemma strip_trimmed:
  "strip s = [] \<or> (hd (strip s) \<notin> set whitespace \<and> last (strip s) \<notin> set whitespace)"
proof (cases "strip s = []")
  case True
  then show ?thesis by simp
next
  case False
  let ?P = "\<lambda>c. c \<in> set whitespace"
  let ?ys = "dropWhile ?P s"
  let ?zs = "dropWhile ?P (rev ?ys)"
  from False have zs: "?zs \<noteq> []" by (simp add: strip_def)
  have ys: "?ys \<noteq> []"
  proof
    assume "?ys = []"
    then have "?zs = []" by (simp only: rev.simps dropWhile.simps)
    with zs show False by contradiction
  qed
  from zs have "\<not> ?P (hd ?zs)" by (rule hd_dropWhile)
  with zs have l: "last (strip s) \<notin> set whitespace"
    by (simp add: strip_def last_rev)
  from ys have hy: "\<not> ?P (hd ?ys)" by (rule hd_dropWhile)
  have "rev ?ys = takeWhile ?P (rev ?ys) @ ?zs" by simp
  with zs have "last ?zs = last (rev ?ys)"
    by (metis last_appendR)
  with ys have "last ?zs = hd ?ys" by (simp add: last_rev)
  with zs hy have "hd (strip s) \<notin> set whitespace"
    by (simp add: strip_def hd_rev)
  with l show ?thesis by simp
qed

text \<open>
  The no-break space and the next-line character are whitespace for \<^verbatim>\<open>str.strip()\<close>,
  and an accented letter is a word character: there is no word boundary between it and a
  digit.
\<close>

lemma strip_latin1_spaces: "strip ([CHR 0xA0] @ ''MIT'' @ [CHR 0x85, CHR '' '']) = ''MIT''"
  by code_simp

lemma zipcode_after_accented_letter:
  "re_search ZIPCODE_PATTERN ([CHR 0xE9] @ ''12345'') = None
   \<and> re_search ZIPCODE_PATTERN ([CHR 0xD7] @ ''12345'') = Some (1, ''12345'')"
  by code_simp

lemma remove_emails_foldl:
  "remove_emails emails t =
     foldl (\<lambda>t email. replace (replace t (''Electronic address: '' @ email @ ''.'') ''.'') email [])
       t emails"
  by (induction emails arbitrary: t) (simp_all add: remove_email_def)

text \<open>
  C5. When the expression is found nowhere in the text, \<^verbatim>\<open>extract_and_remove_email\<close>
  returns \<^verbatim>\<open>None\<close> and the text as it was. Otherwise it returns the first found email
  in document order (the leftmost match), and the text that results from going through the
  found emails in order, for each one first replacing the phrasing
  "Electronic address: email." by a single period and then removing the occurrences of the
  email that remain, trimmed at both ends of the whitespace \<^verbatim>\<open>str.strip()\<close> removes
  (the no-break space and the next-line character included).
\<close>

theorem extract_and_remove_email_behaviour:
  "(re_search email_regex txt = None \<longrightarrow> extract_and_remove_email txt email_regex = (None, txt))
   \<and> (re_search email_regex txt \<noteq> None \<longrightarrow>
        (\<exists>i first others.
           re_search email_regex txt = Some (i, first)
           \<and> re_findall email_regex txt = first # others
           \<and> fst (extract_and_remove_email txt email_regex) = Some first
           \<and> snd (extract_and_remove_email txt email_regex) =
               strip (foldl (\<lambda>t email.
                               replace (replace t (''Electronic address: '' @ email @ ''.'') ''.'')
                                 email [])
                        txt (first # others))
           \<and> (snd (extract_and_remove_email txt email_regex) = []
                \<or> hd (snd (extract_and_remove_email txt email_regex)) \<notin> set whitespace
                  \<and> last (snd (extract_and_remove_email txt email_regex)) \<notin> set whitespace)))"
proof (cases "re_findall email_regex txt")
  case Nil
  then have "re_search email_regex txt = None" by (simp add: re_findall_empty)
  with Nil show ?thesis by (simp add: extract_and_remove_email_def)
next
  case (Cons first others)
  from re_findall_first [OF Cons] obtain i where i: "re_search email_regex txt = Some (i, first)"
    by blast
  from Cons have res: "extract_and_remove_email txt email_regex
                         = (Some first, strip (remove_emails (first # others) txt))"
    by (simp add: extract_and_remove_email_def)
  from strip_trimmed [of "remove_emails (first # others) txt"] res i Cons
  show ?thesis
    by (simp only: remove_emails_foldl) auto
qed

theorem extract_and_remove_email_behaviour_witness:
  "re_search EMAIL_PATTERN ''MIT'' = None
   \<and> extract_and_remove_email ''MIT'' EMAIL_PATTERN = (None, ''MIT'')
   \<and> re_search EMAIL_PATTERN '' MIT x@y.org '' = Some (5, ''x@y.org'')
   \<and> fst (extract_and_remove_email '' MIT x@y.org '' EMAIL_PATTERN) = Some ''x@y.org''
   \<and> extract_and_remove_email ([CHR 0xA0] @ ''MIT x@y.org'' @ [CHR 0x85]) EMAIL_PATTERN
       = (Some ''x@y.org'', ''MIT'')"
proof -
  have none: "re_search EMAIL_PATTERN ''MIT'' = None"
    by code_simp
  have found: "re_search EMAIL_PATTERN '' MIT x@y.org '' = Some (5, ''x@y.org'')"
    by code_simp
  have spaces: "extract_and_remove_email ([CHR 0xA0] @ ''MIT x@y.org'' @ [CHR 0x85]) EMAIL_PATTERN
                  = (Some ''x@y.org'', ''MIT'')"
    by code_simp
  from extract_and_remove_email_behaviour [of EMAIL_PATTERN "''MIT''"] none
  have a: "extract_and_remove_email ''MIT'' EMAIL_PATTERN = (None, ''MIT'')"
    by simp
  from extract_and_remove_email_behaviour [of EMAIL_PATTERN "'' MIT x@y.org ''"] found
  have b: "fst (extract_and_remove_email '' MIT x@y.org '' EMAIL_PATTERN) = Some ''x@y.org''"
    by auto
  from none found a b spaces show ?thesis by simp
qed

text \<open>
  C6 does not hold of the code. Two emails are found in the text below; removing the
  occurrences of the first one also cuts the tail off the second, which is then no longer
  there to be removed, and what is left of it is again an email. A second run on the
  cleaned text finds that email and returns the empty text, not \<^verbatim>\<open>None\<close> and the same
  text.
\<close>

theorem email_removal_leaves_email:
  "extract_and_remove_email ''a@b.cd u@v.wxa@b.cd'' EMAIL_PATTERN = (Some ''a@b.cd'', ''u@v.wx'')
   \<and> re_findall EMAIL_PATTERN ''a@b.cd u@v.wxa@b.cd'' = [''a@b.cd'', ''u@v.wxa'']
   \<and> extract_and_remove_email ''u@v.wx'' EMAIL_PATTERN = (Some ''u@v.wx'', [])"
  by code_simp

text \<open>
  C7 does not hold of the code. The first match of the expression is the second "12345"
  (the first one follows a letter, so there is no word boundary before it), but
  \<^verbatim>\<open>replace(zipcode, "", 1)\<close> removes the first occurrence of that string: the matched
  code stays in the text and the room number loses its digits.
\<close>

theorem zipcode_removal_hits_other_occurrence:
  "re_search ZIPCODE_PATTERN ''Room A12345, Boston 12345'' = Some (20, ''12345'')
   \<and> extract_and_remove_zipcode ''Room A12345, Boston 12345'' ZIPCODE_PATTERN
       = (Some ''12345'', ''Room A, Boston 12345'')"
  by code_simp

subsection \<open>Institution matcher\<close>

lemma extractOne_loop_sound:
  "extractOne_loop scorer query cutoff result i choices = Some (n, s, j)
     \<Longrightarrow> result = Some (n, s, j) \<or> (n \<in> set choices \<and> s = scorer query n \<and> cutoff \<le> s)"
  by (induction choices arbitrary: result i) (auto split: if_splits)

lemma extractOne_sound:
  "extractOne scorer query choices cutoff = Some (n, s, j)
     \<Longrightarrow> n \<in> set choices \<and> s = scorer query n \<and> cutoff \<le> s"
  using extractOne_loop_sound [of scorer query cutoff None 0 choices n s j]
  by (simp add: extractOne_def)

lemma cache_hit_None: "cache_hit orgs c = None \<longleftrightarrow> (\<forall>org \<in> set orgs. c org = None)"
  by (induction orgs) (auto split: option.splits)

lemma cache_hit_first:
  "\<forall>p \<in> set pre. c p = None \<Longrightarrow> c org = Some v
     \<Longrightarrow> cache_hit (pre @ org # post) c = Some (v, org)"
  by (induction pre) auto

lemma score_loop_total:
  "\<forall>org \<in> set orgs. c org = None
     \<Longrightarrow> \<exists>b'. score_loop scorer names c orgs b = Inr b' \<and> scored b' = scored b @ orgs"
proof (induction orgs arbitrary: b)
  case Nil
  then show ?case by simp
next
  case (Cons org orgs)
  then have none: "c org = None" and rest: "\<forall>org \<in> set orgs. c org = None"
    by simp_all
  show ?case
  proof (cases "extractOne scorer org names 90")
    case None
    with none Cons.IH [OF rest, of "b\<lparr>scored := scored b @ [org]\<rparr>"]
    show ?thesis by simp
  next
    case (Some m)
    obtain choice score i where m: "m = (choice, score, i)" by (cases m)
    show ?thesis
    proof (cases "best_score b < score")
      case True
      with none Some m
        Cons.IH [OF rest, of "b\<lparr>best_match := Some (choice, score, i), best_score := score,
                          best_org := Some org, scored := scored b @ [org]\<rparr>"]
      show ?thesis by simp
    next
      case False
      with none Some m Cons.IH [OF rest, of "b\<lparr>scored := scored b @ [org]\<rparr>"]
      show ?thesis by simp
    qed
  qed
qed

lemma score_loop_best:
  "score_loop scorer names c orgs b = Inr b' \<Longrightarrow> best_match b' = Some (n, s, i)
     \<Longrightarrow> (best_match b = Some (n, s, i) \<and> best_org b' = best_org b)
         \<or> (\<exists>org \<in> set orgs. best_org b' = Some org \<and> c org = None
               \<and> n \<in> set names \<and> s = scorer org n \<and> 90 \<le> s)"
proof (induction orgs arbitrary: b)
  case Nil
  then show ?case by simp
next
  case (Cons org orgs)
  show ?case
  proof (cases "c org")
    case (Some m)
    with Cons.prems(1) have "score_loop scorer names c orgs b = Inr b'"
      by (simp split: if_splits)
    from Cons.IH [OF this Cons.prems(2)] show ?thesis by auto
  next
    case None
    show ?thesis
    proof (cases "extractOne scorer org names 90")
      case no: None
      with None Cons.prems(1)
      have "score_loop scorer names c orgs (b\<lparr>scored := scored b @ [org]\<rparr>) = Inr b'"
        by simp
      from Cons.IH [OF this Cons.prems(2)] show ?thesis by auto
    next
      case (Some m)
      obtain choice score j where m: "m = (choice, score, j)" by (cases m)
      from extractOne_sound Some m
      have sound: "choice \<in> set names \<and> score = scorer org choice \<and> 90 \<le> score"
        by blast
      show ?thesis
      proof (cases "best_score b < score")
        case True
        with None Some m Cons.prems(1)
        have "score_loop scorer names c orgs
                (b\<lparr>best_match := Some (choice, score, j), best_score := score,
                   best_org := Some org, scored := scored b @ [org]\<rparr>) = Inr b'"
          by simp
        from Cons.IH [OF this Cons.prems(2)] sound None show ?thesis by auto
      next
        case False
        with None Some m Cons.prems(1)
        have "score_loop scorer names c orgs (b\<lparr>scored := scored b @ [org]\<rparr>) = Inr b'"
          by simp
        from Cons.IH [OF this Cons.prems(2)] show ?thesis by auto
      qed
    qed
  qed
qed

lemma cache_hit_after_store:
  "\<forall>p \<in> set orgs. c p = None \<Longrightarrow> org \<in> set orgs
     \<Longrightarrow> cache_hit orgs (c(org \<mapsto> n)) = Some (n, org)"
  by (induction orgs) auto

lemma matcher_no_orgs:
  "found_orgs_of ents = []
     \<Longrightarrow> extract_and_match_affiliation_name scorer ents names c
           = Inr \<lparr>returned = (None, None), cache_after = c, calls = []\<rparr>"
  by (simp add: extract_and_match_affiliation_name_def)

lemma matcher_hit:
  "cache_hit (found_orgs_of ents) c = Some (v, org)
     \<Longrightarrow> extract_and_match_affiliation_name scorer ents names c
           = Inr \<lparr>returned = (Some v, Some org), cache_after = c, calls = []\<rparr>"
  by (cases "found_orgs_of ents") (simp_all add: extract_and_match_affiliation_name_def)

lemma matcher_scoring:
  assumes orgs: "found_orgs_of ents = first_org # orgs"
    and miss: "cache_hit (found_orgs_of ents) c = None"
  shows "extract_and_match_affiliation_name scorer ents names c
           = Inr \<lparr>returned = (None, Some first_org), cache_after = c,
                  calls = found_orgs_of ents\<rparr>
         \<or> (\<exists>org \<in> set (found_orgs_of ents). \<exists>n \<in> set names. 90 \<le> scorer org n
               \<and> extract_and_match_affiliation_name scorer ents names c
                   = Inr \<lparr>returned = (Some n, Some org), cache_after = c(org \<mapsto> n),
                          calls = found_orgs_of ents\<rparr>)"
proof -
  let ?b0 = "\<lparr>best_match = None, best_org = None, best_score = 0, scored = []\<rparr>"
  from miss have none: "\<forall>org \<in> set (found_orgs_of ents). c org = None"
    by (simp add: cache_hit_None)
  from score_loop_total [OF none, of scorer names ?b0] obtain b where
    loop: "score_loop scorer names c (found_orgs_of ents) ?b0 = Inr b"
    and trace: "scored b = found_orgs_of ents"
    by auto
  show ?thesis
  proof (cases "best_match b")
    case None
    with orgs miss loop trace show ?thesis
      by (simp add: extract_and_match_affiliation_name_def)
  next
    case (Some m)
    obtain n s i where m: "m = (n, s, i)" by (cases m)
    from score_loop_best [OF loop, of n s i] Some m obtain org where
      org: "org \<in> set (found_orgs_of ents)" "best_org b = Some org"
      and good: "n \<in> set names" "s = scorer org n" "90 \<le> s"
      by auto
    from orgs miss loop trace Some m org(2)
    have "extract_and_match_affiliation_name scorer ents names c
            = Inr \<lparr>returned = (Some n, Some org), cache_after = c(org \<mapsto> n),
                   calls = found_orgs_of ents\<rparr>"
      by (simp add: extract_and_match_affiliation_name_def)
    with org(1) good show ?thesis by blast
  qed
qed

text \<open>
  C2, as the code has it. The matcher always returns (its second loop never meets a cached
  value). A second call on the same entities with the cache the first call left returns
  the same pair, and it hands nothing to the scorer whenever the first call returned a
  canonical name or had no candidate at all. Whenever a candidate is a key of the cache,
  the call returns the cached value and the first such candidate in reverse document
  order, changes nothing in the cache and scores nothing.
\<close>

theorem matcher_cache_consistent:
  "\<exists>r1 r2.
     extract_and_match_affiliation_name scorer ents names c = Inr r1
     \<and> extract_and_match_affiliation_name scorer ents names (cache_after r1) = Inr r2
     \<and> returned r2 = returned r1
     \<and> (fst (returned r1) \<noteq> None \<or> found_orgs_of ents = [] \<longrightarrow> calls r2 = [])
     \<and> (\<forall>pre org post v.
           found_orgs_of ents = pre @ org # post \<and> (\<forall>p \<in> set pre. c p = None) \<and> c org = Some v
           \<longrightarrow> r1 = \<lparr>returned = (Some v, Some org), cache_after = c, calls = []\<rparr>)"
proof -
  let ?call = "extract_and_match_affiliation_name scorer ents names"
  have hit: "?call c = Inr \<lparr>returned = (Some v, Some org), cache_after = c, calls = []\<rparr>"
    if "found_orgs_of ents = pre @ org # post" "\<forall>p \<in> set pre. c p = None" "c org = Some v"
    for pre org post v
    using that matcher_hit [of ents c v org] cache_hit_first [of pre c org v post] by simp
  consider (empty) "found_orgs_of ents = []"
    | (cached) v org where "cache_hit (found_orgs_of ents) c = Some (v, org)"
    | (scoring) first_org orgs where "found_orgs_of ents = first_org # orgs"
        "cache_hit (found_orgs_of ents) c = None"
    by (cases "found_orgs_of ents"; cases "cache_hit (found_orgs_of ents) c") auto
  then show ?thesis
  proof cases
    case empty
    from matcher_no_orgs [OF empty] empty show ?thesis by simp
  next
    case cached
    from matcher_hit [OF cached, of scorer names] hit show ?thesis
      by (intro exI [of _ "\<lparr>returned = (Some v, Some org), cache_after = c, calls = []\<rparr>"])
         auto
  next
    case scoring
    from scoring(2) have none: "\<forall>org \<in> set (found_orgs_of ents). c org = None"
      by (simp add: cache_hit_None)
    have nohit: "\<not> (found_orgs_of ents = pre @ o' # post \<and> (\<forall>p \<in> set pre. c p = None)
                     \<and> c o' = Some v)" for pre o' post v
      using none by auto
    from matcher_scoring [OF scoring, of scorer names] show ?thesis
    proof
      assume r: "?call c = Inr \<lparr>returned = (None, Some first_org), cache_after = c,
                               calls = found_orgs_of ents\<rparr>"
      show ?thesis
        apply (rule exI [of _ "\<lparr>returned = (None, Some first_org), cache_after = c,
                                calls = found_orgs_of ents\<rparr>"])
        apply (rule exI [of _ "\<lparr>returned = (None, Some first_org), cache_after = c,
                                calls = found_orgs_of ents\<rparr>"])
        using r scoring(1) nohit by simp
    next
      assume "\<exists>org \<in> set (found_orgs_of ents). \<exists>n \<in> set names. 90 \<le> scorer org n
               \<and> ?call c = Inr \<lparr>returned = (Some n, Some org), cache_after = c(org \<mapsto> n),
                                 calls = found_orgs_of ents\<rparr>"
      then obtain org n where org: "org \<in> set (found_orgs_of ents)"
        and r: "?call c = Inr \<lparr>returned = (Some n, Some org), cache_after = c(org \<mapsto> n),
                                calls = found_orgs_of ents\<rparr>"
        by blast
      from cache_hit_after_store [OF none org]
      have "cache_hit (found_orgs_of ents) (c(org \<mapsto> n)) = Some (n, org)" .
      from matcher_hit [OF this, of scorer names]
      have r2: "?call (c(org \<mapsto> n))
                  = Inr \<lparr>returned = (Some n, Some org), cache_after = c(org \<mapsto> n), calls = []\<rparr>" .
      show ?thesis
        apply (rule exI [of _ "\<lparr>returned = (Some n, Some org), cache_after = c(org \<mapsto> n),
                                calls = found_orgs_of ents\<rparr>"])
        apply (rule exI [of _ "\<lparr>returned = (Some n, Some org), cache_after = c(org \<mapsto> n),
                                calls = []\<rparr>"])
        using r r2 nohit by simp
    qed
  qed
qed

theorem matcher_cache_consistent_witness:
  "returned (projr (extract_and_match_affiliation_name exact_ratio (whole_text_org ''MIT'')
      [''MIT''] (cache_after (projr (extract_and_match_affiliation_name exact_ratio
         (whole_text_org ''MIT'') [''MIT''] Map.empty)))))
     = (Some ''MIT'', Some ''MIT'')
   \<and> calls (projr (extract_and_match_affiliation_name exact_ratio (whole_text_org ''MIT'')
      [''MIT''] (cache_after (projr (extract_and_match_affiliation_name exact_ratio
         (whole_text_org ''MIT'') [''MIT''] Map.empty))))) = []
   \<and> calls (projr (extract_and_match_affiliation_name exact_ratio
         (whole_text_org ''MIT'') [''MIT''] Map.empty)) = [''MIT'']"
proof -
  let ?call = "extract_and_match_affiliation_name exact_ratio (whole_text_org ''MIT'') [''MIT'']"
  from matcher_cache_consistent [of exact_ratio "whole_text_org ''MIT''" "[''MIT'']" Map.empty]
  obtain r1 r2 where
    r1: "?call Map.empty = Inr r1" and r2: "?call (cache_after r1) = Inr r2"
    and same: "returned r2 = returned r1"
    and quiet: "fst (returned r1) \<noteq> None \<or> found_orgs_of (whole_text_org ''MIT'') = []
                  \<longrightarrow> calls r2 = []"
    by blast
  have first: "returned (projr (?call Map.empty)) = (Some ''MIT'', Some ''MIT'')"
    by (simp add: extract_and_match_affiliation_name_def found_orgs_of_def whole_text_org_def
          extractOne_def exact_ratio_def)
  have trace: "calls (projr (?call Map.empty)) = [''MIT'']"
    by (simp add: extract_and_match_affiliation_name_def found_orgs_of_def whole_text_org_def
          extractOne_def exact_ratio_def)
  from r1 have p1: "projr (?call Map.empty) = r1" by simp
  from r2 p1 have p2: "projr (?call (cache_after (projr (?call Map.empty)))) = r2" by simp
  from first p1 quiet have "calls r2 = []" by simp
  with same first trace p1 p2 show ?thesis by simp
qed

text \<open>
  C2 as the specification states it fails: a mention that reaches no reference name at
  the threshold is not stored, so the second call misses the cache and scores the mention
  again.
\<close>

theorem unmatched_mention_rescored_counterexample:
  "\<not> isl (extract_and_match_affiliation_name exact_ratio (whole_text_org ''CERN'') [''MIT'']
            Map.empty)
   \<and> calls (projr (extract_and_match_affiliation_name exact_ratio (whole_text_org ''CERN'')
        [''MIT''] (cache_after (projr (extract_and_match_affiliation_name exact_ratio
           (whole_text_org ''CERN'') [''MIT''] Map.empty))))) = [''CERN'']"
  by (simp add: extract_and_match_affiliation_name_def found_orgs_of_def whole_text_org_def
        extractOne_def exact_ratio_def)

text \<open>
  C9. Every call of \<^verbatim>\<open>extract_and_match_affiliation_name\<close> preserves the invariant of
  the cache: the keys are organisation mentions that were candidates of a call, the values
  are reference names that score at least 90 against their key. A call that returns no
  canonical name leaves the cache as it was, so an outcome without a match is never
  stored; a key whose entry changes is a candidate of this call.
\<close>

theorem cache_invariant_preserved:
  "cache_ok scorer names seen c \<Longrightarrow>
     \<exists>r. extract_and_match_affiliation_name scorer ents names c = Inr r
        \<and> cache_ok scorer names (seen \<union> set (found_orgs_of ents)) (cache_after r)
        \<and> (fst (returned r) = None \<longrightarrow> cache_after r = c)
        \<and> (\<forall>k. cache_after r k \<noteq> c k \<longrightarrow> k \<in> set (found_orgs_of ents))"
proof -
  assume ok: "cache_ok scorer names seen c"
  then have wider: "cache_ok scorer names (seen \<union> set (found_orgs_of ents)) c"
    by (auto simp: cache_ok_def)
  let ?call = "extract_and_match_affiliation_name scorer ents names"
  consider (empty) "found_orgs_of ents = []"
    | (cached) v org where "cache_hit (found_orgs_of ents) c = Some (v, org)"
    | (scoring) first_org orgs where "found_orgs_of ents = first_org # orgs"
        "cache_hit (found_orgs_of ents) c = None"
    by (cases "found_orgs_of ents"; cases "cache_hit (found_orgs_of ents) c") auto
  then show ?thesis
  proof cases
    case empty
    from matcher_no_orgs [OF empty, of scorer names c] wider show ?thesis by simp
  next
    case cached
    from matcher_hit [OF cached, of scorer names] wider show ?thesis by simp
  next
    case scoring
    from matcher_scoring [OF scoring, of scorer names] show ?thesis
    proof
      assume "?call c = Inr \<lparr>returned = (None, Some first_org), cache_after = c,
                            calls = found_orgs_of ents\<rparr>"
      with wider show ?thesis by simp
    next
      assume "\<exists>org \<in> set (found_orgs_of ents). \<exists>n \<in> set names. 90 \<le> scorer org n
               \<and> ?call c = Inr \<lparr>returned = (Some n, Some org), cache_after = c(org \<mapsto> n),
                                 calls = found_orgs_of ents\<rparr>"
      then obtain org n where org: "org \<in> set (found_orgs_of ents)"
        and n: "n \<in> set names" "90 \<le> scorer org n"
        and r: "?call c = Inr \<lparr>returned = (Some n, Some org), cache_after = c(org \<mapsto> n),
                                calls = found_orgs_of ents\<rparr>"
        by blast
      from wider org n
      have "cache_ok scorer names (seen \<union> set (found_orgs_of ents)) (c(org \<mapsto> n))"
        by (auto simp: cache_ok_def)
      with r org show ?thesis by simp
    qed
  qed
qed

theorem cache_invariant_preserved_witness:
  "cache_ok exact_ratio [''MIT''] {} Map.empty
   \<and> cache_ok exact_ratio [''MIT''] {''MIT''}
        (cache_after (projr (extract_and_match_affiliation_name exact_ratio
           (whole_text_org ''MIT'') [''MIT''] Map.empty)))
   \<and> cache_after (projr (extract_and_match_affiliation_name exact_ratio
           (whole_text_org ''MIT'') [''MIT''] Map.empty)) ''MIT'' = Some ''MIT''"
proof -
  have ok: "cache_ok exact_ratio [''MIT''] {} Map.empty"
    by (simp add: cache_ok_def)
  have orgs: "found_orgs_of (whole_text_org ''MIT'') = [''MIT'']"
    by (simp add: found_orgs_of_def whole_text_org_def)
  have stored: "cache_after (projr (extract_and_match_affiliation_name exact_ratio
           (whole_text_org ''MIT'') [''MIT''] Map.empty)) ''MIT'' = Some ''MIT''"
    by (simp add: extract_and_match_affiliation_name_def found_orgs_of_def whole_text_org_def
          extractOne_def exact_ratio_def)
  from cache_invariant_preserved [OF ok, of "whole_text_org ''MIT''"] orgs ok stored
  show ?thesis by auto
qed

subsection \<open>Runs that return\<close>

text \<open>
  The values of the cache are reference names throughout a run, so the identifier lookup
  always finds a row; the matcher never raises. What is left to go wrong is an affiliation
  without text and a descriptor without the attribute \<^verbatim>\<open>UI\<close>.
\<close>

lemma cache_hit_value: "cache_hit orgs c = Some (v, org) \<Longrightarrow> c org = Some v"
  by (induction orgs) (auto split: option.splits)

lemma matcher_names:
  assumes vals: "\<forall>k v. c k = Some v \<longrightarrow> v \<in> set names"
  shows "\<exists>r. extract_and_match_affiliation_name scorer ents names c = Inr r
           \<and> (\<forall>k v. cache_after r k = Some v \<longrightarrow> v \<in> set names)
           \<and> (\<forall>n. fst (returned r) = Some n \<longrightarrow> n \<in> set names)"
proof -
  consider (empty) "found_orgs_of ents = []"
    | (cached) v org where "cache_hit (found_orgs_of ents) c = Some (v, org)"
    | (scoring) first_org orgs where "found_orgs_of ents = first_org # orgs"
        "cache_hit (found_orgs_of ents) c = None"
    by (cases "found_orgs_of ents"; cases "cache_hit (found_orgs_of ents) c") auto
  then show ?thesis
  proof cases
    case empty
    from matcher_no_orgs [OF empty, of scorer names c] vals show ?thesis by simp
  next
    case cached
    from cache_hit_value [OF cached] vals have "v \<in> set names" by blast
    with matcher_hit [OF cached, of scorer names] vals show ?thesis by simp
  next
    case scoring
    from matcher_scoring [OF scoring, of scorer names] vals show ?thesis
      by (elim disjE bexE conjE) simp_all
  qed
qed

lemma get_grid_identifier_total:
  "n \<in> set (map name institute_data)
     \<Longrightarrow> \<exists>ident. get_grid_identifier (Some n) institute_data = Inr ident"
proof -
  assume "n \<in> set (map name institute_data)"
  then have "filter (\<lambda>r. name r = n) institute_data \<noteq> []"
    by (auto simp: filter_empty_conv)
  then show ?thesis
    by (cases "filter (\<lambda>r. name r = n) institute_data")
       (simp_all add: get_grid_identifier_def)
qed

lemma enrich_total:
  assumes has_text: "text_of affiliation \<noteq> None"
    and vals: "\<forall>k v. c k = Some v \<longrightarrow> v \<in> set (map name institute_data)"
  shows "\<exists>complete_data c'.
           extract_and_insert_affiliation_info g affiliation target institute_data c
             = Inr (complete_data, c')
           \<and> (\<forall>k v. c' k = Some v \<longrightarrow> v \<in> set (map name institute_data))"
proof -
  from has_text obtain t where t: "text_of affiliation = Some t" by blast
  obtain email text1 where e: "extract_and_remove_email t EMAIL_PATTERN = (email, text1)"
    by (cases "extract_and_remove_email t EMAIL_PATTERN")
  obtain zipcode text2 where z: "extract_and_remove_zipcode text1 ZIPCODE_PATTERN = (zipcode, text2)"
    by (cases "extract_and_remove_zipcode text1 ZIPCODE_PATTERN")
  from matcher_names [OF vals, of "fuzz_ratio g" "nlp g text2"] obtain m where
    m: "extract_and_match_affiliation_name (fuzz_ratio g) (nlp g text2)
          (map name institute_data) c = Inr m"
    and keep: "\<forall>k v. cache_after m k = Some v \<longrightarrow> v \<in> set (map name institute_data)"
    and nm: "\<forall>n. fst (returned m) = Some n \<longrightarrow> n \<in> set (map name institute_data)"
    by blast
  have "\<exists>ident. get_grid_identifier (fst (returned m)) institute_data = Inr ident"
  proof (cases "fst (returned m)")
    case None
    then show ?thesis by (simp add: get_grid_identifier_def)
  next
    case (Some n)
    with nm get_grid_identifier_total [of n institute_data] show ?thesis by simp
  qed
  then obtain ident where i: "get_grid_identifier (fst (returned m)) institute_data = Inr ident"
    by blast
  from t e z m i keep show ?thesis
    by (simp add: extract_and_insert_affiliation_info_def Let_def)
qed

lemma affiliation_loop_total:
  "\<forall>a \<in> set affs. text_of a \<noteq> None
     \<Longrightarrow> \<forall>k v. c k = Some v \<longrightarrow> v \<in> set (map name institute_data)
     \<Longrightarrow> \<exists>c' data'. affiliation_loop g affs target institute_data c data = Inr (c', data')
           \<and> (\<forall>k v. c' k = Some v \<longrightarrow> v \<in> set (map name institute_data))"
proof (induction affs arbitrary: c data)
  case Nil
  then show ?case by simp
next
  case (Cons a affs)
  from Cons.prems(1) have "text_of a \<noteq> None" by simp
  from enrich_total [OF this Cons.prems(2), of g target] obtain row c1 where
    head: "extract_and_insert_affiliation_info g a target institute_data c = Inr (row, c1)"
    and vals: "\<forall>k v. c1 k = Some v \<longrightarrow> v \<in> set (map name institute_data)"
    by blast
  from Cons.prems(1) have "\<forall>a \<in> set affs. text_of a \<noteq> None" by simp
  from Cons.IH [OF this vals, of "data @ [row]"] head show ?case by simp
qed

lemma author_loop_total:
  "\<forall>author \<in> set authors. \<not> is_collective author \<longrightarrow>
      (\<forall>a \<in> set (affiliations_of author). text_of a \<noteq> None)
     \<Longrightarrow> \<forall>k v. c k = Some v \<longrightarrow> v \<in> set (map name institute_data)
     \<Longrightarrow> \<exists>c' data'. author_loop g authors article_data institute_data c data = Inr (c', data')
           \<and> (\<forall>k v. c' k = Some v \<longrightarrow> v \<in> set (map name institute_data))"
proof (induction authors arbitrary: c data)
  case Nil
  then show ?case by simp
next
  case (Cons author authors)
  from Cons.prems(1) have rest: "\<forall>author \<in> set authors. \<not> is_collective author \<longrightarrow>
      (\<forall>a \<in> set (affiliations_of author). text_of a \<noteq> None)" by simp
  show ?case
  proof (cases "is_collective author")
    case True
    then have "findtext author [''CollectiveName''] \<noteq> None"
      by (simp add: is_collective_def)
    with Cons.IH [OF rest Cons.prems(2), of data] show ?thesis by simp
  next
    case False
    then have no: "findtext author [''CollectiveName''] = None"
      by (simp add: is_collective_def)
    from False Cons.prems(1) have "\<forall>a \<in> set (affiliations_of author). text_of a \<noteq> None"
      by simp
    from affiliation_loop_total [OF this Cons.prems(2), of g "insert_author_info author article_data" data]
    obtain c1 data1 where
      inner: "affiliation_loop g (affiliations_of author) (insert_author_info author article_data)
                institute_data c data = Inr (c1, data1)"
      and vals: "\<forall>k v. c1 k = Some v \<longrightarrow> v \<in> set (map name institute_data)"
      by blast
    from Cons.IH [OF rest vals, of data1] inner no show ?thesis
      by (simp add: affiliations_of_def)
  qed
qed

lemma mesh_identifiers_total:
  "\<forall>d \<in> set ds. map_of (attrib d) ''UI'' \<noteq> None \<Longrightarrow> \<exists>uis. mesh_identifiers ds = Inr uis"
  by (induction ds) auto

lemma insert_article_info_total:
  "\<forall>d \<in> set (findall article [''MedlineCitation'', ''MeshHeadingList'', ''MeshHeading'',
                                 ''DescriptorName'']). map_of (attrib d) ''UI'' \<noteq> None
     \<Longrightarrow> \<exists>article_data. insert_article_info article target = Inr article_data"
proof -
  assume "\<forall>d \<in> set (findall article [''MedlineCitation'', ''MeshHeadingList'', ''MeshHeading'',
                                 ''DescriptorName'']). map_of (attrib d) ''UI'' \<noteq> None"
  from mesh_identifiers_total [OF this] obtain uis where
    "mesh_identifiers (findall article [''MedlineCitation'', ''MeshHeadingList'', ''MeshHeading'',
                                 ''DescriptorName'']) = Inr uis"
    by blast
  then show ?thesis
    by (simp add: insert_article_info_def Let_def del: findall.simps)
qed

lemma article_loop_total:
  "\<forall>article \<in> set articles.
      (\<forall>d \<in> set (findall article [''MedlineCitation'', ''MeshHeadingList'', ''MeshHeading'',
                                  ''DescriptorName'']). map_of (attrib d) ''UI'' \<noteq> None)
      \<and> (\<forall>author \<in> set (findall article
                              [''MedlineCitation'', ''Article'', ''AuthorList'', ''Author'']).
            \<not> is_collective author \<longrightarrow> (\<forall>a \<in> set (affiliations_of author). text_of a \<noteq> None))
     \<Longrightarrow> \<forall>k v. c k = Some v \<longrightarrow> v \<in> set (map name institute_data)
     \<Longrightarrow> \<exists>c' data'. article_loop g articles institute_data c data = Inr (c', data')"
proof (induction articles arbitrary: c data)
  case Nil
  then show ?case by simp
next
  case (Cons article articles)
  from Cons.prems(1) have mesh: "\<forall>d \<in> set (findall article [''MedlineCitation'',
      ''MeshHeadingList'', ''MeshHeading'', ''DescriptorName'']). map_of (attrib d) ''UI'' \<noteq> None"
    and texts: "\<forall>author \<in> set (findall article
                              [''MedlineCitation'', ''Article'', ''AuthorList'', ''Author'']).
            \<not> is_collective author \<longrightarrow> (\<forall>a \<in> set (affiliations_of author). text_of a \<noteq> None)"
    by simp_all
  from insert_article_info_total [OF mesh, of Map.empty] obtain article_data where
    art: "insert_article_info article Map.empty = Inr article_data"
    by blast
  from author_loop_total [OF texts Cons.prems(2), of g article_data data] obtain c1 data1 where
    inner: "author_loop g (findall article
               [''MedlineCitation'', ''Article'', ''AuthorList'', ''Author''])
               article_data institute_data c data = Inr (c1, data1)"
    and vals: "\<forall>k v. c1 k = Some v \<longrightarrow> v \<in> set (map name institute_data)"
    by blast
  from Cons.prems(1) have rest: "\<forall>article \<in> set articles.
      (\<forall>d \<in> set (findall article [''MedlineCitation'', ''MeshHeadingList'', ''MeshHeading'',
                                  ''DescriptorName'']). map_of (attrib d) ''UI'' \<noteq> None)
      \<and> (\<forall>author \<in> set (findall article
                              [''MedlineCitation'', ''Article'', ''AuthorList'', ''Author'']).
            \<not> is_collective author \<longrightarrow> (\<forall>a \<in> set (affiliations_of author). text_of a \<noteq> None))"
    by simp
  from Cons.IH [OF rest vals, of data1] art inner show ?case
    by (simp del: findall.simps)
qed

lemma process_total:
  "well_formed tree_root
     \<Longrightarrow> \<exists>rows. process_xml_and_generate_csv g tree_root institute_data = Inr rows"
proof -
  assume wf: "well_formed tree_root"
  have "\<exists>c' data'. article_loop g (iter tree_root ''PubmedArticle'') institute_data
                      Map.empty [] = Inr (c', data')"
  proof (rule article_loop_total)
    show "\<forall>k v. Map.empty k = Some v \<longrightarrow> v \<in> set (map name institute_data)"
      by simp
    from wf show "\<forall>article \<in> set (iter tree_root ''PubmedArticle'').
      (\<forall>d \<in> set (findall article [''MedlineCitation'', ''MeshHeadingList'', ''MeshHeading'',
                                  ''DescriptorName'']). map_of (attrib d) ''UI'' \<noteq> None)
      \<and> (\<forall>author \<in> set (findall article
                              [''MedlineCitation'', ''Article'', ''AuthorList'', ''Author'']).
            \<not> is_collective author \<longrightarrow> (\<forall>a \<in> set (affiliations_of author). text_of a \<noteq> None))"
      unfolding well_formed_def authors_of_def by auto
  qed
  then show ?thesis
    by (auto simp: process_xml_and_generate_csv_def)
qed

subsection \<open>Row count\<close>

lemma affiliation_loop_length:
  "affiliation_loop g affs t d c data = Inr (c', data')
     \<Longrightarrow> length data' = length data + length affs"
  by (induction affs arbitrary: c data) (auto split: sum.splits)

lemma author_loop_length:
  "author_loop g authors t d c data = Inr (c', data')
     \<Longrightarrow> length data' = length data
           + sum_list (map (\<lambda>author. length (affiliations_of author))
                           (filter (\<lambda>author. \<not> is_collective author) authors))"
proof (induction authors arbitrary: c data)
  case Nil
  then show ?case by simp
next
  case (Cons author authors)
  show ?case
  proof (cases "is_collective author")
    case True
    then have "findtext author [''CollectiveName''] \<noteq> None"
      by (simp add: is_collective_def)
    with Cons.prems have "author_loop g authors t d c data = Inr (c', data')"
      by simp
    from Cons.IH [OF this] True show ?thesis by simp
  next
    case False
    then have "findtext author [''CollectiveName''] = None"
      by (simp add: is_collective_def)
    with Cons.prems obtain c1 data1 where
      inner: "affiliation_loop g (affiliations_of author) (insert_author_info author t) d c data
                = Inr (c1, data1)"
      and rest: "author_loop g authors t d c1 data1 = Inr (c', data')"
      by (auto simp: affiliations_of_def split: sum.splits)
    from affiliation_loop_length [OF inner] Cons.IH [OF rest] False
    show ?thesis by simp
  qed
qed

lemma article_loop_length:
  "article_loop g articles d c data = Inr (c', data')
     \<Longrightarrow> length data' = length data
           + sum_list (map (\<lambda>author. length (affiliations_of author))
               (filter (\<lambda>author. \<not> is_collective author)
                  (concat (map (\<lambda>article. findall article
                      [''MedlineCitation'', ''Article'', ''AuthorList'', ''Author'']) articles))))"
proof (induction articles arbitrary: c data)
  case Nil
  then show ?case by simp
next
  case (Cons article articles)
  from Cons.prems obtain article_data c1 data1 where
    "insert_article_info article Map.empty = Inr article_data"
    and inner: "author_loop g (findall article
                   [''MedlineCitation'', ''Article'', ''AuthorList'', ''Author''])
                   article_data d c data = Inr (c1, data1)"
    and rest: "article_loop g articles d c1 data1 = Inr (c', data')"
    by (auto split: sum.splits)
  from author_loop_length [OF inner] Cons.IH [OF rest]
  show ?case by simp
qed

text \<open>
  C1. Whenever \<^verbatim>\<open>process_xml_and_generate_csv\<close> gets through a citation tree and
  writes its table, the number of rows is the sum of the numbers of affiliation elements of
  the authors that are not collectives; a collective author adds nothing. On every
  well-formed tree, with a reference table of strings, the run does get through and writes
  that many rows. (A run that an error ends writes no table at all.)
\<close>

theorem row_count:
  "(process_xml_and_generate_csv g tree_root institute_data = Inr rows
      \<longrightarrow> length rows = expected_row_count tree_root)
   \<and> (well_formed tree_root \<longrightarrow>
        (\<exists>data. process_xml_and_generate_csv g tree_root institute_data = Inr data
           \<and> length data = expected_row_count tree_root))"
proof -
  have count: "length data = expected_row_count tree_root"
    if "process_xml_and_generate_csv g tree_root institute_data = Inr data" for data
  proof -
    from that obtain c where
      "article_loop g (iter tree_root ''PubmedArticle'') institute_data Map.empty [] = Inr (c, data)"
      by (auto simp: process_xml_and_generate_csv_def split: sum.splits)
    from article_loop_length [OF this]
    show ?thesis by (simp add: expected_row_count_def authors_of_def)
  qed
  from count process_total [of tree_root g institute_data] show ?thesis by blast
qed

theorem row_count_witness:
  "well_formed example_tree
   \<and> process_xml_and_generate_csv example_globals example_tree example_institutes
     = Inr (projr (process_xml_and_generate_csv example_globals example_tree example_institutes))
   \<and> length (projr (process_xml_and_generate_csv example_globals example_tree example_institutes))
       = 2"
proof -
  have wf: "well_formed example_tree"
    by code_simp
  have two: "expected_row_count example_tree = 2"
    by code_simp
  from row_count [of example_globals example_tree example_institutes] wf obtain data where
    run: "process_xml_and_generate_csv example_globals example_tree example_institutes = Inr data"
    and len: "length data = expected_row_count example_tree"
    by blast
  from run have "projr (process_xml_and_generate_csv example_globals example_tree
                          example_institutes) = data"
    by simp
  with wf run len two show ?thesis by simp
qed

subsection \<open>Failures of the enrichment\<close>

lemma affiliation_loop_texts:
  "affiliation_loop g affs t d c data = Inr r \<Longrightarrow> a \<in> set affs \<Longrightarrow> text_of a \<noteq> None"
proof (induction affs arbitrary: c data)
  case Nil
  then show ?case by simp
next
  case (Cons x affs)
  from Cons.prems(1) obtain row c1 where
    head: "extract_and_insert_affiliation_info g x t d c = Inr (row, c1)"
    and rest: "affiliation_loop g affs t d c1 (data @ [row]) = Inr r"
    by (auto split: sum.splits)
  from head have "text_of x \<noteq> None"
    by (cases "text_of x") (simp_all add: extract_and_insert_affiliation_info_def)
  with Cons.IH [OF rest] Cons.prems(2) show ?case by auto
qed

lemma author_loop_texts:
  "author_loop g authors t d c data = Inr r \<Longrightarrow> author \<in> set authors
     \<Longrightarrow> \<not> is_collective author \<Longrightarrow> a \<in> set (affiliations_of author) \<Longrightarrow> text_of a \<noteq> None"
proof (induction authors arbitrary: c data)
  case Nil
  then show ?case by simp
next
  case (Cons x authors)
  show ?case
  proof (cases "is_collective x")
    case True
    then have "findtext x [''CollectiveName''] \<noteq> None"
      by (simp add: is_collective_def)
    with Cons.prems(1) have rest: "author_loop g authors t d c data = Inr r"
      by simp
    from True Cons.prems(2,3) have "author \<in> set authors" by auto
    from Cons.IH [OF rest this Cons.prems(3,4)] show ?thesis .
  next
    case False
    then have "findtext x [''CollectiveName''] = None"
      by (simp add: is_collective_def)
    with Cons.prems(1) obtain r1 c1 data1 where
      inner: "affiliation_loop g (affiliations_of x) (insert_author_info x t) d c data = Inr r1"
      and rest: "author_loop g authors t d c1 data1 = Inr r"
      by (auto simp: affiliations_of_def split: sum.splits)
    show ?thesis
    proof (cases "author = x")
      case True
      with affiliation_loop_texts [OF inner] Cons.prems(4) show ?thesis by simp
    next
      case False
      with Cons.prems(2) have "author \<in> set authors" by simp
      from Cons.IH [OF rest this Cons.prems(3,4)] show ?thesis .
    qed
  qed
qed

lemma article_loop_texts:
  "article_loop g articles d c data = Inr r \<Longrightarrow> article \<in> set articles
     \<Longrightarrow> author \<in> set (findall article
                          [''MedlineCitation'', ''Article'', ''AuthorList'', ''Author''])
     \<Longrightarrow> \<not> is_collective author \<Longrightarrow> a \<in> set (affiliations_of author) \<Longrightarrow> text_of a \<noteq> None"
proof (induction articles arbitrary: c data)
  case Nil
  then show ?case by simp
next
  case (Cons x articles)
  from Cons.prems(1) obtain article_data r1 c1 data1 where
    inner: "author_loop g (findall x [''MedlineCitation'', ''Article'', ''AuthorList'', ''Author''])
              article_data d c data = Inr r1"
    and rest: "article_loop g articles d c1 data1 = Inr r"
    by (auto split: sum.splits)
  show ?case
  proof (cases "article = x")
    case True
    with author_loop_texts [OF inner _ Cons.prems(4,5)] Cons.prems(3) show ?thesis by simp
  next
    case False
    with Cons.prems(2) have "article \<in> set articles" by simp
    from Cons.IH [OF rest this Cons.prems(3,4,5)] show ?thesis .
  qed
qed

lemma affiliation_loop_append:
  "affiliation_loop g (xs @ ys) t d c data =
     (case affiliation_loop g xs t d c data of
        Inl e \<Rightarrow> Inl e
      | Inr (c', data') \<Rightarrow> affiliation_loop g ys t d c' data')"
  by (induction xs arbitrary: c data) (auto split: sum.splits)

lemma author_loop_append:
  "author_loop g (xs @ ys) t d c data =
     (case author_loop g xs t d c data of
        Inl e \<Rightarrow> Inl e
      | Inr (c', data') \<Rightarrow> author_loop g ys t d c' data')"
  by (induction xs arbitrary: c data) (auto split: sum.splits simp del: findall.simps)

lemma article_loop_append:
  "article_loop g (xs @ ys) d c data =
     (case article_loop g xs d c data of
        Inl e \<Rightarrow> Inl e
      | Inr (c', data') \<Rightarrow> article_loop g ys d c' data')"
  by (induction xs arbitrary: c data) (auto split: sum.splits simp del: findall.simps)

text \<open>
  C4, as the code has it. Nothing catches a failure of the enrichment of one affiliation.
  An affiliation element without text makes \<^verbatim>\<open>extract_and_insert_affiliation_info\<close>
  raise \<^verbatim>\<open>TypeError\<close>. Whenever the run reaches an affiliation (all the articles,
  authors and affiliations before it went through) and the enrichment of that affiliation
  fails with an error, the whole run ends with that error and writes no row, for that
  affiliation or any other. A tree in which an author that is not a collective has an
  affiliation without text never gets its table written.
\<close>

theorem extraction_failure_aborts_run:
  "(text_of affiliation = None \<longrightarrow>
      extract_and_insert_affiliation_info g affiliation target institute_data c = Inl TypeError)
   \<and> (iter tree_root ''PubmedArticle'' = articles_before @ article # articles_after
        \<and> article_loop g articles_before institute_data Map.empty [] = Inr (cache_a, data_a)
        \<and> insert_article_info article Map.empty = Inr article_data
        \<and> findall article [''MedlineCitation'', ''Article'', ''AuthorList'', ''Author'']
            = authors_before @ author # authors_after
        \<and> author_loop g authors_before article_data institute_data cache_a data_a = Inr (cache_b, data_b)
        \<and> \<not> is_collective author
        \<and> affiliations_of author = affiliations_before @ affiliation # affiliations_after
        \<and> affiliation_loop g affiliations_before (insert_author_info author article_data)
              institute_data cache_b data_b = Inr (cache_c, data_c)
        \<and> extract_and_insert_affiliation_info g affiliation
              (insert_author_info author article_data) institute_data cache_c = Inl e
        \<longrightarrow> process_xml_and_generate_csv g tree_root institute_data = Inl e)
   \<and> ((\<exists>author \<in> set (authors_of tree_root). \<not> is_collective author
          \<and> (\<exists>a \<in> set (affiliations_of author). text_of a = None)) \<longrightarrow>
        (\<exists>e. process_xml_and_generate_csv g tree_root institute_data = Inl e))"
proof -
  have one: "text_of affiliation = None \<longrightarrow>
      extract_and_insert_affiliation_info g affiliation target institute_data c = Inl TypeError"
    by (simp add: extract_and_insert_affiliation_info_def)
  have two: "process_xml_and_generate_csv g tree_root institute_data = Inl e"
    if articles: "iter tree_root ''PubmedArticle'' = articles_before @ article # articles_after"
      and before: "article_loop g articles_before institute_data Map.empty [] = Inr (cache_a, data_a)"
      and art: "insert_article_info article Map.empty = Inr article_data"
      and authors: "findall article [''MedlineCitation'', ''Article'', ''AuthorList'', ''Author'']
                      = authors_before @ author # authors_after"
      and authors_before: "author_loop g authors_before article_data institute_data cache_a data_a
                             = Inr (cache_b, data_b)"
      and individual: "\<not> is_collective author"
      and affs: "affiliations_of author = affiliations_before @ affiliation # affiliations_after"
      and affs_before: "affiliation_loop g affiliations_before
                          (insert_author_info author article_data) institute_data cache_b data_b
                          = Inr (cache_c, data_c)"
      and fails: "extract_and_insert_affiliation_info g affiliation
                    (insert_author_info author article_data) institute_data cache_c = Inl e"
  proof -
    from affs_before fails
    have "affiliation_loop g (affiliations_before @ affiliation # affiliations_after)
            (insert_author_info author article_data) institute_data cache_b data_b = Inl e"
      by (simp add: affiliation_loop_append)
    with affs have inner: "affiliation_loop g (findall author [''AffiliationInfo'', ''Affiliation''])
            (insert_author_info author article_data) institute_data cache_b data_b = Inl e"
      by (simp add: affiliations_of_def)
    from individual have "findtext author [''CollectiveName''] = None"
      by (simp add: is_collective_def)
    with inner have "author_loop g (author # authors_after) article_data institute_data cache_b data_b
                       = Inl e"
      by simp
    with authors_before
    have "author_loop g (authors_before @ author # authors_after) article_data institute_data
            cache_a data_a = Inl e"
      by (simp add: author_loop_append)
    with authors art
    have "article_loop g (article # articles_after) institute_data cache_a data_a = Inl e"
      by simp
    with before
    have "article_loop g (articles_before @ article # articles_after) institute_data
            Map.empty [] = Inl e"
      by (simp add: article_loop_append)
    with articles show ?thesis
      by (simp add: process_xml_and_generate_csv_def)
  qed
  have three: "\<exists>e. process_xml_and_generate_csv g tree_root institute_data = Inl e"
    if author: "author \<in> set (authors_of tree_root)" and "\<not> is_collective author"
      and "a \<in> set (affiliations_of author)" and "text_of a = None" for author a
  proof (cases "process_xml_and_generate_csv g tree_root institute_data")
    case (Inl e)
    then show ?thesis by blast
  next
    case (Inr rows)
    then obtain r where loop:
      "article_loop g (iter tree_root ''PubmedArticle'') institute_data Map.empty [] = Inr r"
      by (auto simp: process_xml_and_generate_csv_def split: sum.splits)
    from author obtain article where "article \<in> set (iter tree_root ''PubmedArticle'')"
      and "author \<in> set (findall article
                           [''MedlineCitation'', ''Article'', ''AuthorList'', ''Author''])"
      by (auto simp: authors_of_def)
    from article_loop_texts [OF loop this that(2,3)] that(4) show ?thesis by simp
  qed
  from one two three show ?thesis by blast
qed

theorem extraction_failure_aborts_run_witness:
  "text_of (leaf ''Affiliation'' None) = None
   \<and> iter textless_tree ''PubmedArticle''
       = [node ''PubmedArticle''
            [node ''MedlineCitation''
               [node ''Article''
                  [node ''AuthorList''
                     [node ''Author'' [affiliation_info (Some ''MIT''), affiliation_info None]]]]]]
   \<and> affiliations_of (node ''Author'' [affiliation_info (Some ''MIT''), affiliation_info None])
       = [leaf ''Affiliation'' (Some ''MIT''), leaf ''Affiliation'' None]
   \<and> process_xml_and_generate_csv example_globals textless_tree example_institutes
       = Inl TypeError
   \<and> (\<exists>e. process_xml_and_generate_csv example_globals textless_tree example_institutes = Inl e)"
proof -
  let ?author = "node ''Author'' [affiliation_info (Some ''MIT''), affiliation_info None]"
  let ?article = "node ''PubmedArticle''
                    [node ''MedlineCitation'' [node ''Article'' [node ''AuthorList'' [?author]]]]"
  let ?data = "projr (insert_article_info ?article Map.empty)"
  let ?first = "affiliation_loop example_globals [leaf ''Affiliation'' (Some ''MIT'')]
                  (insert_author_info ?author ?data) example_institutes Map.empty []"
  have t: "text_of (leaf ''Affiliation'' None) = None"
    by (simp add: leaf_def)
  have articles: "iter textless_tree ''PubmedArticle'' = [] @ ?article # []"
    by code_simp
  have "\<not> isl (insert_article_info ?article Map.empty)"
    by code_simp
  then have art: "insert_article_info ?article Map.empty = Inr ?data"
    by simp
  have authors: "findall ?article [''MedlineCitation'', ''Article'', ''AuthorList'', ''Author'']
                   = [] @ ?author # []"
    by code_simp
  have individual: "\<not> is_collective ?author"
    by code_simp
  have affs: "affiliations_of ?author
                = [leaf ''Affiliation'' (Some ''MIT'')] @ leaf ''Affiliation'' None # []"
    by code_simp
  have "\<not> isl ?first"
    by code_simp
  then have before: "?first = Inr (fst (projr ?first), snd (projr ?first))"
    by simp
  from extraction_failure_aborts_run
         [where affiliation = "leaf ''Affiliation'' None" and g = example_globals
            and institute_data = example_institutes and tree_root = textless_tree
            and target = "insert_author_info ?author ?data" and c = "fst (projr ?first)"
            and articles_before = "[]" and article = "?article" and articles_after = "[]"
            and cache_a = Map.empty and data_a = "[]" and article_data = "?data"
            and authors_before = "[]" and author = "?author" and authors_after = "[]"
            and cache_b = Map.empty and data_b = "[]"
            and affiliations_before = "[leaf ''Affiliation'' (Some ''MIT'')]"
            and affiliations_after = "[]"
            and cache_c = "fst (projr ?first)" and data_c = "snd (projr ?first)" and e = TypeError]
  have fails: "extract_and_insert_affiliation_info example_globals (leaf ''Affiliation'' None)
                 (insert_author_info ?author ?data) example_institutes (fst (projr ?first))
                 = Inl TypeError"
    and run: "iter textless_tree ''PubmedArticle'' = [] @ ?article # []
        \<and> article_loop example_globals [] example_institutes Map.empty [] = Inr (Map.empty, [])
        \<and> insert_article_info ?article Map.empty = Inr ?data
        \<and> findall ?article [''MedlineCitation'', ''Article'', ''AuthorList'', ''Author'']
            = [] @ ?author # []
        \<and> author_loop example_globals [] ?data example_institutes Map.empty []
            = Inr (Map.empty, [])
        \<and> \<not> is_collective ?author
        \<and> affiliations_of ?author
            = [leaf ''Affiliation'' (Some ''MIT'')] @ leaf ''Affiliation'' None # []
        \<and> ?first = Inr (fst (projr ?first), snd (projr ?first))
        \<and> extract_and_insert_affiliation_info example_globals (leaf ''Affiliation'' None)
              (insert_author_info ?author ?data) example_institutes (fst (projr ?first))
            = Inl TypeError
        \<longrightarrow> process_xml_and_generate_csv example_globals textless_tree example_institutes
              = Inl TypeError"
    using t by blast+
  have "article_loop example_globals [] example_institutes Map.empty [] = Inr (Map.empty, [])"
    and "author_loop example_globals [] ?data example_institutes Map.empty []
           = Inr (Map.empty, [])"
    by simp_all
  with run articles art authors individual affs before fails
  have result: "process_xml_and_generate_csv example_globals textless_tree example_institutes
                  = Inl TypeError"
    by blast
  from articles affs have "iter textless_tree ''PubmedArticle'' = [?article]"
    and "affiliations_of ?author = [leaf ''Affiliation'' (Some ''MIT''), leaf ''Affiliation'' None]"
    by simp_all
  with t result show ?thesis by simp
qed

text \<open>
  C4 as the specification states it fails: the second affiliation of the author has no
  text, and instead of two rows, one of them with empty affiliation fields, the run ends
  with \<^verbatim>\<open>TypeError\<close>.
\<close>

theorem per_row_recovery_counterexample:
  "process_xml_and_generate_csv example_globals textless_tree example_institutes = Inl TypeError"
proof -
  have "(case process_xml_and_generate_csv example_globals textless_tree example_institutes of
           Inl e \<Rightarrow> e = TypeError | Inr rows \<Rightarrow> False)"
    by code_simp
  then show ?thesis by (simp split: sum.splits)
qed

end
